theory Spec2Isabelle
  imports Main "HOL-Library.Sublist"
begin

section \<open>Python text primitives\<close>

text \<open>
  Python strings are modelled as HOL strings. The character tables below are the
  ASCII rows of the tables CPython uses for \<^verbatim>\<open>str.isspace\<close>, \<^verbatim>\<open>str.lower\<close> and
  for the classes \<^verbatim>\<open>\s\<close>, \<^verbatim>\<open>\d\<close>, \<^verbatim>\<open>\w\<close> of the module \<^verbatim>\<open>re\<close>; a character
  outside ASCII is treated as a symbol that is neither space, digit, letter nor
  word character.
\<close>

definition isspace :: "char \<Rightarrow> bool" where
  "isspace c = (let n = (of_char c :: nat) in (9 \<le> n \<and> n \<le> 13) \<or> (28 \<le> n \<and> n \<le> 32))"

definition isdigit :: "char \<Rightarrow> bool" where
  "isdigit c = (let n = (of_char c :: nat) in 48 \<le> n \<and> n \<le> 57)"

definition isupper :: "char \<Rightarrow> bool" where
  "isupper c = (let n = (of_char c :: nat) in 65 \<le> n \<and> n \<le> 90)"

definition islower :: "char \<Rightarrow> bool" where
  "islower c = (let n = (of_char c :: nat) in 97 \<le> n \<and> n \<le> 122)"

definition is_word :: "char \<Rightarrow> bool" where
  "is_word c = (isdigit c \<or> isupper c \<or> islower c \<or> c = CHR ''_'')"

definition lower_char :: "char \<Rightarrow> char" where
  "lower_char c = (if isupper c then char_of ((of_char c :: nat) + 32) else c)"

text \<open>\<^verbatim>\<open>s.lower()\<close>\<close>

definition lower :: "string \<Rightarrow> string" where
  "lower s = map lower_char s"

text \<open>\<^verbatim>\<open>s.strip()\<close>: leading and trailing whitespace removed.\<close>

definition lstrip :: "string \<Rightarrow> string" where
  "lstrip s = dropWhile isspace s"

definition rstrip :: "string \<Rightarrow> string" where
  "rstrip s = rev (dropWhile isspace (rev s))"

definition strip :: "string \<Rightarrow> string" where
  "strip s = rstrip (lstrip s)"

text \<open>\<^verbatim>\<open>t in s\<close> on strings: \<open>t\<close> occurs in \<open>s\<close> as a contiguous substring.\<close>

fun starts_with :: "string \<Rightarrow> string \<Rightarrow> bool" where
  "starts_with [] s = True"
| "starts_with (c # t) [] = False"
| "starts_with (c # t) (d # s) = (c = d \<and> starts_with t s)"

fun str_in :: "string \<Rightarrow> string \<Rightarrow> bool" where
  "str_in t [] = (t = [])"
| "str_in t (c # s) = (starts_with t (c # s) \<or> str_in t s)"

text \<open>\<^verbatim>\<open>sep.join(xs)\<close>\<close>

fun join :: "string \<Rightarrow> string list \<Rightarrow> string" where
  "join sep [] = []"
| "join sep [x] = x"
| "join sep (x # y # xs) = x @ sep @ join sep (y # xs)"

section \<open>The fragment of Python's regular expressions used by the program\<close>

text \<open>
  Every pattern of the program is built from literals, character classes, \<^verbatim>\<open>\b\<close>,
  concatenation, alternation and greedy repetition of a single character class, so the
  syntax tree below covers them all. \<open>Opt r\<close> is \<^verbatim>\<open>r?\<close>.
\<close>

datatype cls =
    Dot
  | Digit
  | Space
  | One char
  | Range char char
  | Union cls cls
  | Neg cls

datatype regex =
    Lit string
  | Set cls
  | Bnd
  | Seq regex regex
  | Alt regex regex
  | Rep cls nat "nat option"

definition Opt :: "regex \<Rightarrow> regex" where
  "Opt r = Alt r (Lit [])"

fun seqs :: "regex list \<Rightarrow> regex" where
  "seqs [] = Lit []"
| "seqs [r] = r"
| "seqs (r # rs) = Seq r (seqs rs)"

fun alts :: "string list \<Rightarrow> regex" where
  "alts [] = Lit []"
| "alts [w] = Lit w"
| "alts (w # ws) = Alt (Lit w) (alts ws)"

text \<open>Character comparison, under \<^verbatim>\<open>re.IGNORECASE\<close> when \<open>ic\<close> is set.\<close>

definition ceq :: "bool \<Rightarrow> char \<Rightarrow> char \<Rightarrow> bool" where
  "ceq ic a c = (if ic then lower_char a = lower_char c else a = c)"

definition in_range :: "char \<Rightarrow> char \<Rightarrow> char \<Rightarrow> bool" where
  "in_range a b c = ((of_char a :: nat) \<le> of_char c \<and> (of_char c :: nat) \<le> of_char b)"

definition upper_char :: "char \<Rightarrow> char" where
  "upper_char c = (if islower c then char_of ((of_char c :: nat) - 32) else c)"

fun cmatch :: "bool \<Rightarrow> cls \<Rightarrow> char \<Rightarrow> bool" where
  "cmatch ic Dot c = (c \<noteq> CHR 0x0A)"
| "cmatch ic Digit c = isdigit c"
| "cmatch ic Space c = isspace c"
| "cmatch ic (One a) c = ceq ic a c"
| "cmatch ic (Range a b) c =
     (in_range a b c \<or> (ic \<and> (in_range a b (lower_char c) \<or> in_range a b (upper_char c))))"
| "cmatch ic (Union x y) c = (cmatch ic x c \<or> cmatch ic y c)"
| "cmatch ic (Neg x) c = (\<not> cmatch ic x c)"

text \<open>
  A position in the subject string is the pair of "the character before the position
  is a word character" and the text that remains. \<^verbatim>\<open>\b\<close> holds where exactly one of
  the two neighbours is a word character (the ends of the string count as non-word).
\<close>

type_synonym pos = "bool \<times> string"

definition at_boundary :: "pos \<Rightarrow> bool" where
  "at_boundary p = (fst p \<noteq> (case snd p of [] \<Rightarrow> False | c # _ \<Rightarrow> is_word c))"

text \<open>The position reached after consuming the first \<open>n\<close> characters.\<close>

definition advance :: "pos \<Rightarrow> nat \<Rightarrow> pos" where
  "advance p n = (if n = 0 then p else (is_word (snd p ! (n - 1)), drop n (snd p)))"

fun lit_match :: "bool \<Rightarrow> string \<Rightarrow> string \<Rightarrow> bool" where
  "lit_match ic [] s = True"
| "lit_match ic (a # w) [] = False"
| "lit_match ic (a # w) (c # s) = (ceq ic a c \<and> lit_match ic w s)"

text \<open>
  \<open>ends ic r p\<close> lists the positions at which a match of \<open>r\<close> starting at \<open>p\<close> can end,
  in the order in which the backtracking matcher tries them: the left alternative
  first, the longest repetition first.
\<close>

fun ends :: "bool \<Rightarrow> regex \<Rightarrow> pos \<Rightarrow> pos list" where
  "ends ic (Lit w) p = (if lit_match ic w (snd p) then [advance p (length w)] else [])"
| "ends ic (Set c) p =
     (case snd p of [] \<Rightarrow> [] | x # _ \<Rightarrow> if cmatch ic c x then [advance p 1] else [])"
| "ends ic Bnd p = (if at_boundary p then [p] else [])"
| "ends ic (Seq r1 r2) p = concat (map (ends ic r2) (ends ic r1 p))"
| "ends ic (Alt r1 r2) p = ends ic r1 p @ ends ic r2 p"
| "ends ic (Rep c lo hi) p =
     (let run = length (takeWhile (cmatch ic c) (snd p));
          n = (case hi of None \<Rightarrow> run | Some h \<Rightarrow> min h run)
      in map (advance p) (rev [lo..<Suc n]))"

text \<open>\<^verbatim>\<open>re.search(r, s)\<close> as a truth value: some position of \<open>s\<close> starts a match.\<close>

fun search_from :: "bool \<Rightarrow> regex \<Rightarrow> pos \<Rightarrow> bool" where
  "search_from ic r (b, []) = (ends ic r (b, []) \<noteq> [])"
| "search_from ic r (b, c # s) =
     (ends ic r (b, c # s) \<noteq> [] \<or> search_from ic r (is_word c, s))"

definition re_search :: "bool \<Rightarrow> regex \<Rightarrow> string \<Rightarrow> bool" where
  "re_search ic r s = search_from ic r (False, s)"

text \<open>\<^verbatim>\<open>re.fullmatch(r, s)\<close> as a truth value: a match from the start ends at the end.\<close>

definition re_fullmatch :: "bool \<Rightarrow> regex \<Rightarrow> string \<Rightarrow> bool" where
  "re_fullmatch ic r s = list_ex (\<lambda>p. snd p = []) (ends ic r (False, s))"

text \<open>
  \<^verbatim>\<open>re.sub(r, repl, s)\<close> for a replacement without group references. The scan copies
  characters until a match starts, writes \<open>repl\<close> for the match and goes on behind
  it. The match taken at a position is the first one in the matcher's order. After an
  empty match the matcher must advance (\<open>adv\<close>): at the same position only a
  non-empty match is accepted.
\<close>

function sub_from :: "bool \<Rightarrow> regex \<Rightarrow> string \<Rightarrow> bool \<Rightarrow> pos \<Rightarrow> string" where
  "sub_from ic r repl adv p =
     (case find (\<lambda>q. length (snd q) < length (snd p) \<or> (\<not> adv \<and> length (snd q) = length (snd p)))
             (ends ic r p) of
        Some q \<Rightarrow>
          if length (snd q) < length (snd p) then repl @ sub_from ic r repl False q
          else repl @ sub_from ic r repl True p
      | None \<Rightarrow>
          (case snd p of [] \<Rightarrow> []
           | c # s \<Rightarrow> c # sub_from ic r repl False (is_word c, s)))"
  by pat_completeness auto
termination
  by (relation "measure (\<lambda>(ic, r, repl, adv, p). 2 * length (snd p) + (if adv then 0 else 1))")
     (auto simp: find_Some_iff)

declare sub_from.simps [simp del]

definition re_sub :: "bool \<Rightarrow> regex \<Rightarrow> string \<Rightarrow> string \<Rightarrow> string" where
  "re_sub ic r repl s = sub_from ic r repl False (False, s)"

section \<open>guardrails/policy\_router.py\<close>

datatype PolicyAction = ALLOW | TRANSFORM | REFUSE

record PolicyDecision =
  action :: PolicyAction
  reason :: string
  rewrite :: "string option"

definition REASON_GENERAL_EDU :: string where
  "REASON_GENERAL_EDU = ''general_education''"

definition REASON_ASSET_RECOMMENDATION :: string where
  "REASON_ASSET_RECOMMENDATION = ''asset_recommendation''"

definition REASON_TIMING_REQUEST :: string where
  "REASON_TIMING_REQUEST = ''timing_request''"

definition REASON_PORTFOLIO_ALLOCATION :: string where
  "REASON_PORTFOLIO_ALLOCATION = ''portfolio_allocation''"

definition REASON_ILLEGAL_FINANCIAL :: string where
  "REASON_ILLEGAL_FINANCIAL = ''illegal_financial''"

text \<open>\<^verbatim>\<open>\s+\<close> and \<^verbatim>\<open>.+\<close>\<close>

definition sp :: regex where
  "sp = Rep Space 1 None"

definition any1 :: regex where
  "any1 = Rep Dot 1 None"

definition ILLEGAL_PATTERNS :: "regex list" where
  "ILLEGAL_PATTERNS =
    [seqs [Bnd, Lit ''money'', sp, Lit ''launder'', alts [''ing'', []], Bnd],
     seqs [Bnd, Lit ''launder'', alts [''ing'', []], Bnd, Rep Dot 0 None, Bnd, Lit ''money'', Bnd],
     seqs [Bnd, Lit ''insider'', sp, Lit ''trad'', alts [''ing'', ''e''], Bnd],
     seqs [Bnd, Lit ''front'', Opt (Set (Union (One CHR ''-'') Space)), Lit ''run'',
           alts [''ning'', []], Bnd],
     seqs [Bnd, Lit ''evade'', sp, Lit ''tax'', alts [''es'', []], Bnd],
     seqs [Bnd, Lit ''tax'', sp, Lit ''evasion'', Bnd],
     seqs [Bnd, Lit ''fake'', sp, alts [''receipt'', ''invoic''], Lit ''e'', alts [''s'', []], Bnd],
     seqs [Bnd, Lit ''forg'', alts [''e'', ''ing''], sp, alts [''a'', ''an''], sp,
           alts [''receipt'', ''invoice'', ''statement''], Bnd],
     seqs [Bnd, Lit ''commit'', sp, Lit ''fraud'', Bnd],
     seqs [Bnd, Lit ''ponzi'', Bnd]]"

definition ADVICE_PATTERNS :: "regex list" where
  "ADVICE_PATTERNS =
    [seqs [Bnd, Lit ''what'', sp, Lit ''should'', sp, Lit ''i'', sp,
           alts [''invest'', ''buy'', ''do''], Bnd],
     seqs [Bnd, Lit ''should'', sp, Lit ''i'', sp, alts [''buy'', ''sell'', ''invest''], Bnd],
     seqs [Bnd, Lit ''is'', sp, any1, sp, Lit ''a'', sp, Lit ''good'', sp,
           alts [''buy'', ''investment''], Bnd],
     seqs [Bnd, alts [''best'', ''top''], sp,
           alts [''stock'', ''etf'', ''crypto'', ''investment''], Bnd],
     seqs [Bnd, Lit ''which'', sp, alts [''stock'', ''etf'', ''crypto''], sp, Lit ''should'', sp,
           Lit ''i'', sp, alts [''buy'', ''pick''], Bnd],
     seqs [Bnd, alts [''rate'', ''rank''], sp, any1, sp, alts [''stock'', ''etf'', ''crypto''], Bnd],
     seqs [Bnd, Lit ''best'', sp, Lit ''way'', sp, Lit ''to'', sp, Lit ''invest'', Bnd],
     seqs [Bnd, Lit ''invest'', sp, Lit ''my'', sp, Lit ''money'', Bnd],
     seqs [Bnd, Lit ''what'', Opt (Lit [CHR 0x27]), Lit ''s'', sp, Lit ''the'', sp, Lit ''best'', sp,
           Lit ''way'', sp, Lit ''to'', sp, Lit ''invest'', Bnd]]"

definition ALLOCATION_PATTERNS :: "regex list" where
  "ALLOCATION_PATTERNS =
    [seqs [Bnd, Lit ''allocat'', alts [''e'', ''ion''], Bnd],
     seqs [Bnd, Lit ''my'', sp, Lit ''portfolio'', Bnd],
     seqs [Bnd, Lit ''diversif'', alts [''y'', ''ication''], sp, Lit ''my'', sp,
           Lit ''portfolio'', Bnd],
     seqs [Bnd, Lit ''I'', sp, Lit ''have'', sp, Opt (Lit ''$''), Set Digit],
     seqs [Bnd, Lit ''with'', sp, Opt (Lit ''$''), Set Digit],
     seqs [Bnd, Lit ''how'', sp, Lit ''should'', sp, Lit ''i'', sp, Lit ''invest'', sp,
           Opt (Lit ''$''), Set Digit],
     seqs [Bnd, Lit ''retirement'', sp, Lit ''plan'', Bnd],
     seqs [Bnd, Lit ''build'', sp, Lit ''me'', sp, alts [''a'', ''an''], sp,
           alts [''portfolio'', ''plan''], Bnd]]"

definition TIMING_PATTERNS :: "regex list" where
  "TIMING_PATTERNS =
    [seqs [Bnd, Lit ''when'', sp, Lit ''should'', sp, Lit ''i'', sp, alts [''buy'', ''sell''], Bnd],
     seqs [Bnd, Lit ''time'', sp, Lit ''the'', sp, Lit ''market'', Bnd],
     seqs [Bnd, Lit ''should'', sp, Lit ''i'', sp, Lit ''sell'', sp, Lit ''now'', Bnd]]"

text \<open>\<^verbatim>\<open>\b[A-Z]{1,5}\b\<close>, compiled without flags.\<close>

definition TICKER_LIKE :: regex where
  "TICKER_LIKE = seqs [Bnd, Rep (Range CHR ''A'' CHR ''Z'') 1 (Some 5), Bnd]"

text \<open>\<^verbatim>\<open>\$?\d[\d,]*(\.\d+)?\<close>\<close>

definition AMOUNT :: regex where
  "AMOUNT = seqs [Opt (Lit ''$''), Set Digit, Rep (Union Digit (One CHR '','')) 0 None,
                  Opt (Seq (Lit ''.'') (Rep Digit 1 None))]"

text \<open>\<^verbatim>\<open>\b(buy|sell)\b\<close>\<close>

definition BUY_SELL :: regex where
  "BUY_SELL = seqs [Bnd, alts [''buy'', ''sell''], Bnd]"

text \<open>\<^verbatim>\<open>_matches_any\<close>: every pattern is searched with \<^verbatim>\<open>re.IGNORECASE\<close>.\<close>

definition matches_any :: "regex list \<Rightarrow> string \<Rightarrow> bool" where
  "matches_any patterns text = list_ex (\<lambda>p. re_search True p text) patterns"

definition safe_rewrite_for_advice :: "string \<Rightarrow> string" where
  "safe_rewrite_for_advice original =
     (let t = lower (strip original) in
      if matches_any TIMING_PATTERNS t then
        ''What are the common factors and risks people consider when deciding whether to hold or sell an investment, ''
        @ ''and why is market timing difficult in general?''
      else if matches_any ALLOCATION_PATTERNS t then
        ''What are general frameworks people use to think about diversification, time horizon, liquidity needs, ''
        @ ''and risk tolerance when building a long-term investment plan (conceptually)?''
      else
        ''What are general frameworks to evaluate investment options based on goals, time horizon, and risk tolerance, ''
        @ ''and what tradeoffs typically matter?'')"

definition sanitize_rewrite :: "string \<Rightarrow> string" where
  "sanitize_rewrite rewrite0 =
     (let out = rewrite0;
          out = re_sub False AMOUNT ''[amount]'' out;
          out = re_sub False TICKER_LIKE ''[asset]'' out;
          out = re_sub True BUY_SELL ''trade'' out
      in strip out)"

text \<open>
  \<^verbatim>\<open>route(user_text)\<close>. On a string, \<^verbatim>\<open>user_text or ""\<close> is the string itself. The
  function has no raising statement: it is total, and so is the model.
\<close>

definition route :: "string \<Rightarrow> PolicyDecision" where
  "route user_text =
     (let text = strip user_text in
      if text = [] then
        \<lparr>action = ALLOW, reason = REASON_GENERAL_EDU, rewrite = None\<rparr>
      else if matches_any ILLEGAL_PATTERNS text then
        \<lparr>action = REFUSE, reason = REASON_ILLEGAL_FINANCIAL, rewrite = None\<rparr>
      else if matches_any ADVICE_PATTERNS text then
        \<lparr>action = TRANSFORM, reason = REASON_ASSET_RECOMMENDATION,
         rewrite = Some (sanitize_rewrite (safe_rewrite_for_advice text))\<rparr>
      else if matches_any ALLOCATION_PATTERNS text then
        \<lparr>action = TRANSFORM, reason = REASON_PORTFOLIO_ALLOCATION,
         rewrite = Some (sanitize_rewrite (safe_rewrite_for_advice text))\<rparr>
      else if matches_any TIMING_PATTERNS text then
        \<lparr>action = TRANSFORM, reason = REASON_TIMING_REQUEST,
         rewrite = Some (sanitize_rewrite (safe_rewrite_for_advice text))\<rparr>
      else
        \<lparr>action = ALLOW, reason = REASON_GENERAL_EDU, rewrite = None\<rparr>)"

section \<open>domain/concepts/types.py\<close>

datatype Category = BUDGETING | CREDIT | INVESTING | TAXES | BANKING | INSURANCE | DEBT

datatype Difficulty = BEGINNER | INTERMEDIATE | ADVANCED

datatype Intent =
    EDUCATIONAL_EXPLANATION
  | DEFINITION_LOOKUP
  | PERSONAL_ADVICE
  | SCORE_OPTIMIZATION
  | PRODUCT_RECOMMENDATION

text \<open>
  An \<^verbatim>\<open>Enum\<close> class is its members in definition order together with their values;
  \<^verbatim>\<open>cls(value)\<close> looks the member up by value.
\<close>

fun Category_value :: "Category \<Rightarrow> string" where
  "Category_value BUDGETING = ''budgeting''"
| "Category_value CREDIT = ''credit''"
| "Category_value INVESTING = ''investing''"
| "Category_value TAXES = ''taxes''"
| "Category_value BANKING = ''banking''"
| "Category_value INSURANCE = ''insurance''"
| "Category_value DEBT = ''debt''"

definition Category_members :: "Category list" where
  "Category_members = [BUDGETING, CREDIT, INVESTING, TAXES, BANKING, INSURANCE, DEBT]"

fun Difficulty_value :: "Difficulty \<Rightarrow> string" where
  "Difficulty_value BEGINNER = ''beginner''"
| "Difficulty_value INTERMEDIATE = ''intermediate''"
| "Difficulty_value ADVANCED = ''advanced''"

definition Difficulty_members :: "Difficulty list" where
  "Difficulty_members = [BEGINNER, INTERMEDIATE, ADVANCED]"

fun Intent_value :: "Intent \<Rightarrow> string" where
  "Intent_value EDUCATIONAL_EXPLANATION = ''educational_explanation''"
| "Intent_value DEFINITION_LOOKUP = ''definition_lookup''"
| "Intent_value PERSONAL_ADVICE = ''personal_advice''"
| "Intent_value SCORE_OPTIMIZATION = ''score_optimization''"
| "Intent_value PRODUCT_RECOMMENDATION = ''product_recommendation''"

definition Intent_members :: "Intent list" where
  "Intent_members = [EDUCATIONAL_EXPLANATION, DEFINITION_LOOKUP, PERSONAL_ADVICE,
                     SCORE_OPTIMIZATION, PRODUCT_RECOMMENDATION]"

record ConceptExample =
  scenario :: string
  explanation :: string

record ConceptCard =
  id' :: string
  title :: string
  category :: Category
  difficulty :: Difficulty
  summary :: "string list"
  core_mechanics :: "string list"
  examples :: "ConceptExample list"
  misconceptions :: "string list"
  non_goals :: "string list"
  allowed_intents :: "Intent list"
  forbidden_intents :: "Intent list"
  sources :: "string list"
  last_updated :: string

section \<open>domain/concepts/validator.py\<close>

text \<open>
  The untyped values a decoded record is made of. A mapping is its list of items in
  insertion order (a Python \<^verbatim>\<open>dict\<close> has each key once); every scalar that is not a
  string takes the same branches as \<open>PInt\<close> in each \<^verbatim>\<open>isinstance\<close> test below.
\<close>

datatype pyval =
    PNone
  | PBool bool
  | PInt int
  | PStr string
  | PList "pyval list"
  | PDict "(string \<times> pyval) list"

text \<open>\<^verbatim>\<open>ConceptValidationError\<close> carries its message.\<close>

datatype error = ConceptValidationError string

definition and_then :: "error + 'a \<Rightarrow> ('a \<Rightarrow> error + 'b) \<Rightarrow> error + 'b" where
  "and_then m f = (case m of Inl e \<Rightarrow> Inl e | Inr v \<Rightarrow> f v)"

definition PLACEHOLDER_RE :: regex where
  "PLACEHOLDER_RE = seqs [Lit ''<'', Rep (Neg (One CHR ''>'')) 1 None, Lit ''>'']"

text \<open>\<^verbatim>\<open>\b(you|your|yours|yourself)\b\<close>, searched with \<^verbatim>\<open>re.IGNORECASE\<close>.\<close>

definition SECOND_PERSON_RE :: regex where
  "SECOND_PERSON_RE = seqs [Bnd, alts [''you'', ''your'', ''yours'', ''yourself''], Bnd]"

text \<open>\<^verbatim>\<open>\d{4}-\d{2}-\d{2}\<close> and \<^verbatim>\<open>[a-z][a-z0-9_]*\<close>\<close>

definition DATE_RE :: regex where
  "DATE_RE = seqs [Rep Digit 4 (Some 4), Lit ''-'', Rep Digit 2 (Some 2), Lit ''-'',
                   Rep Digit 2 (Some 2)]"

definition SNAKE_RE :: regex where
  "SNAKE_RE = seqs [Set (Range CHR ''a'' CHR ''z''),
                    Rep (Union (Range CHR ''a'' CHR ''z'')
                          (Union (Range CHR ''0'' CHR ''9'') (One CHR ''_''))) 0 None]"

definition has_placeholder :: "string \<Rightarrow> bool" where
  "has_placeholder s = re_search False PLACEHOLDER_RE s"

fun str_of_nat :: "nat \<Rightarrow> string" where
  "str_of_nat n =
     (if n < 10 then [char_of (48 + n)] else str_of_nat (n div 10) @ [char_of (48 + n mod 10)])"

text \<open>\<^verbatim>\<open>isinstance(v, str)\<close>, and the string of a value known to be one.\<close>

fun is_str :: "pyval \<Rightarrow> bool" where
  "is_str (PStr s) = True"
| "is_str v = False"

fun the_str :: "pyval \<Rightarrow> string" where
  "the_str (PStr s) = s"
| "the_str v = []"

text \<open>\<^verbatim>\<open>isinstance(v, list)\<close> and \<^verbatim>\<open>isinstance(v, dict)\<close>, with the contents of such a value.\<close>

fun is_list :: "pyval \<Rightarrow> bool" where
  "is_list (PList xs) = True"
| "is_list v = False"

fun the_list :: "pyval \<Rightarrow> pyval list" where
  "the_list (PList xs) = xs"
| "the_list v = []"

fun is_dict :: "pyval \<Rightarrow> bool" where
  "is_dict (PDict d) = True"
| "is_dict v = False"

fun the_dict :: "pyval \<Rightarrow> (string \<times> pyval) list" where
  "the_dict (PDict d) = d"
| "the_dict v = []"

text \<open>\<^verbatim>\<open>not isinstance(v, str) or not v.strip()\<close>\<close>

definition not_nonempty_str :: "pyval \<Rightarrow> bool" where
  "not_nonempty_str v = (\<not> is_str v \<or> strip (the_str v) = [])"

text \<open>\<^verbatim>\<open>d.get(key)\<close>\<close>

definition dict_get :: "(string \<times> pyval) list \<Rightarrow> string \<Rightarrow> pyval" where
  "dict_get d key = (case map_of d key of None \<Rightarrow> PNone | Some v \<Rightarrow> v)"

definition card_id_for_errors :: "(string \<times> pyval) list \<Rightarrow> string" where
  "card_id_for_errors raw =
     (let cid = dict_get raw ''id'' in
      if is_str cid \<and> strip (the_str cid) \<noteq> [] then the_str cid else ''<missing-id>'')"

definition raise :: "string \<Rightarrow> string \<Rightarrow> string \<Rightarrow> error + 'a" where
  "raise card_id field msg =
     Inl (ConceptValidationError (''[ConceptCard id='' @ card_id @ ''] '' @ field @ '': '' @ msg))"

text \<open>\<^verbatim>\<open>f"{key}[{i}]"\<close>\<close>

definition indexed :: "string \<Rightarrow> nat \<Rightarrow> string" where
  "indexed key i = key @ ''['' @ str_of_nat i @ '']''"

definition require_key :: "(string \<times> pyval) list \<Rightarrow> string \<Rightarrow> string \<Rightarrow> error + pyval" where
  "require_key raw card_id key =
     (case map_of raw key of
        None \<Rightarrow> raise card_id key ''missing required field''
      | Some v \<Rightarrow> Inr v)"

definition require_str :: "(string \<times> pyval) list \<Rightarrow> string \<Rightarrow> string \<Rightarrow> error + string" where
  "require_str raw card_id key =
     and_then (require_key raw card_id key) (\<lambda>v.
       if not_nonempty_str v then raise card_id key ''must be a non-empty string''
       else if has_placeholder (the_str v) then
         raise card_id key ''contains placeholder text like <...>''
       else Inr (strip (the_str v)))"

text \<open>The loop of \<^verbatim>\<open>_require_list_of_str\<close> from index \<open>i\<close> on.\<close>

fun list_of_str_loop :: "string \<Rightarrow> string \<Rightarrow> nat \<Rightarrow> pyval list \<Rightarrow> error + string list" where
  "list_of_str_loop card_id key i [] = Inr []"
| "list_of_str_loop card_id key i (item # rest) =
     (if not_nonempty_str item then
        raise card_id (indexed key i) ''must be a non-empty string''
      else if has_placeholder (the_str item) then
        raise card_id (indexed key i) ''contains placeholder text like <...>''
      else and_then (list_of_str_loop card_id key (Suc i) rest) (\<lambda>out.
        Inr (strip (the_str item) # out)))"

definition require_list_of_str ::
  "(string \<times> pyval) list \<Rightarrow> string \<Rightarrow> string \<Rightarrow> nat \<Rightarrow> error + string list" where
  "require_list_of_str raw card_id key min_len =
     and_then (require_key raw card_id key) (\<lambda>v.
       if \<not> is_list v then raise card_id key ''must be a list of strings''
       else
         and_then (list_of_str_loop card_id key 0 (the_list v)) (\<lambda>out.
           if length out < min_len then
             raise card_id key (''must contain at least '' @ str_of_nat min_len @ '' item(s)'')
           else Inr out))"

definition to_enum :: "string \<Rightarrow> string \<Rightarrow> 'e list \<Rightarrow> ('e \<Rightarrow> string) \<Rightarrow> string \<Rightarrow> error + 'e" where
  "to_enum card_id field members value_of v =
     (case find (\<lambda>e. value_of e = v) members of
        Some e \<Rightarrow> Inr e
      | None \<Rightarrow>
          raise card_id field
            (''invalid value '' @ [CHR 0x27] @ v @ [CHR 0x27] @ ''. Allowed: ''
             @ join '', '' (map value_of members)))"

definition require_enum ::
  "(string \<times> pyval) list \<Rightarrow> string \<Rightarrow> string \<Rightarrow> 'e list \<Rightarrow> ('e \<Rightarrow> string) \<Rightarrow> error + 'e" where
  "require_enum raw card_id key members value_of =
     and_then (require_str raw card_id key) (to_enum card_id key members value_of)"

fun examples_loop :: "string \<Rightarrow> nat \<Rightarrow> pyval list \<Rightarrow> error + ConceptExample list" where
  "examples_loop card_id i [] = Inr []"
| "examples_loop card_id i (ex # rest) =
     (if \<not> is_dict ex then
        raise card_id (indexed ''examples'' i) ''must be a mapping with scenario/explanation''
      else
        (let scenario = dict_get (the_dict ex) ''scenario'';
             explanation = dict_get (the_dict ex) ''explanation''
         in if not_nonempty_str scenario then
              raise card_id (indexed ''examples'' i @ ''.scenario'') ''must be a non-empty string''
            else if not_nonempty_str explanation then
              raise card_id (indexed ''examples'' i @ ''.explanation'') ''must be a non-empty string''
            else if has_placeholder (the_str scenario) then
              raise card_id (indexed ''examples'' i @ ''.scenario'')
                ''contains placeholder text like <...>''
            else if has_placeholder (the_str explanation) then
              raise card_id (indexed ''examples'' i @ ''.explanation'')
                ''contains placeholder text like <...>''
            else and_then (examples_loop card_id (Suc i) rest) (\<lambda>out.
              Inr (\<lparr>scenario = strip (the_str scenario),
                    explanation = strip (the_str explanation)\<rparr> # out))))"

definition require_examples :: "(string \<times> pyval) list \<Rightarrow> string \<Rightarrow> error + ConceptExample list" where
  "require_examples raw card_id =
     and_then (require_key raw card_id ''examples'') (\<lambda>examples_raw.
       if \<not> is_list examples_raw then
         raise card_id ''examples'' ''must be a list of example objects''
       else examples_loop card_id 0 (the_list examples_raw))"

text \<open>\<^verbatim>\<open>isinstance(v, list) and all(isinstance(x, str) for x in v)\<close>\<close>

definition is_list_of_str :: "pyval \<Rightarrow> bool" where
  "is_list_of_str v = (is_list v \<and> list_all is_str (the_list v))"

text \<open>The two intent loops of \<^verbatim>\<open>_require_safety\<close>; \<open>field\<close> is the list's path.\<close>

fun intents_loop :: "string \<Rightarrow> string \<Rightarrow> nat \<Rightarrow> pyval list \<Rightarrow> error + Intent list" where
  "intents_loop card_id field i [] = Inr []"
| "intents_loop card_id field i (s # rest) =
     (let s2 = strip (the_str s) in
      if s2 = [] then raise card_id (indexed field i) ''must be a non-empty string''
      else if has_placeholder s2 then
        raise card_id (indexed field i) ''contains placeholder text like <...>''
      else and_then (to_enum card_id (indexed field i) Intent_members Intent_value s2) (\<lambda>e.
           and_then (intents_loop card_id field (Suc i) rest) (\<lambda>out. Inr (e # out))))"

text \<open>
  \<^verbatim>\<open>sorted(xs, key=lambda x: x.value)\<close> on a set of intents: the members in the order
  of their values.
\<close>

definition Intent_by_value :: "Intent list" where
  "Intent_by_value = [DEFINITION_LOOKUP, EDUCATIONAL_EXPLANATION, PERSONAL_ADVICE,
                      PRODUCT_RECOMMENDATION, SCORE_OPTIMIZATION]"

definition must_forbid :: "Intent list" where
  "must_forbid = [PERSONAL_ADVICE, PRODUCT_RECOMMENDATION]"

definition require_safety ::
  "(string \<times> pyval) list \<Rightarrow> string \<Rightarrow> error + Intent list \<times> Intent list" where
  "require_safety raw card_id =
     and_then (require_key raw card_id ''safety'') (\<lambda>safety.
       if \<not> is_dict safety then
         raise card_id ''safety'' ''must be a mapping with allowed_intents/forbidden_intents''
       else
         (let allowed_raw = dict_get (the_dict safety) ''allowed_intents'';
              forbidden_raw = dict_get (the_dict safety) ''forbidden_intents''
          in if \<not> is_list_of_str allowed_raw then
               raise card_id ''safety.allowed_intents'' ''must be a list of strings''
             else if \<not> is_list_of_str forbidden_raw then
               raise card_id ''safety.forbidden_intents'' ''must be a list of strings''
             else
               and_then (intents_loop card_id ''safety.allowed_intents'' 0 (the_list allowed_raw))
                 (\<lambda>allowed.
               and_then (intents_loop card_id ''safety.forbidden_intents'' 0 (the_list forbidden_raw))
                 (\<lambda>forbidden.
                 let missing = filter (\<lambda>m. m \<in> set must_forbid \<and> m \<notin> set forbidden)
                                 Intent_by_value;
                     overlap = filter (\<lambda>m. m \<in> set allowed \<and> m \<in> set forbidden)
                                 Intent_by_value
                 in if missing \<noteq> [] then
                      raise card_id ''safety.forbidden_intents''
                        (''must include: '' @ join '', '' (map Intent_value missing))
                    else if overlap \<noteq> [] then
                      raise card_id ''safety''
                        (''allowed_intents and forbidden_intents overlap: ''
                         @ join '', '' (map Intent_value overlap))
                    else Inr (allowed, forbidden)))))"

fun sources_loop :: "string \<Rightarrow> nat \<Rightarrow> pyval list \<Rightarrow> error + string list" where
  "sources_loop card_id i [] = Inr []"
| "sources_loop card_id i (s # rest) =
     (if not_nonempty_str s then
        raise card_id (indexed ''metadata.sources'' i) ''must be a non-empty string''
      else if has_placeholder (the_str s) then
        raise card_id (indexed ''metadata.sources'' i) ''contains placeholder text like <...>''
      else and_then (sources_loop card_id (Suc i) rest) (\<lambda>out. Inr (strip (the_str s) # out)))"

definition require_metadata :: "(string \<times> pyval) list \<Rightarrow> string \<Rightarrow> error + string list \<times> string" where
  "require_metadata raw card_id =
     and_then (require_key raw card_id ''metadata'') (\<lambda>meta.
       if \<not> is_dict meta then
         raise card_id ''metadata'' ''must be a mapping with sources/last_updated''
       else
         (let sources_raw = dict_get (the_dict meta) ''sources'' in
          if \<not> is_list sources_raw \<or> the_list sources_raw = [] then
            raise card_id ''metadata.sources'' ''must be a non-empty list of strings''
          else
            and_then (sources_loop card_id 0 (the_list sources_raw)) (\<lambda>clean_sources.
              let last_updated_raw = dict_get (the_dict meta) ''last_updated'' in
              if not_nonempty_str last_updated_raw then
                raise card_id ''metadata.last_updated''
                  ''must be a non-empty string in YYYY-MM-DD format''
              else
                (let last_updated = strip (the_str last_updated_raw) in
                 if has_placeholder last_updated then
                   raise card_id ''metadata.last_updated'' ''contains placeholder text like <...>''
                 else if \<not> re_fullmatch False DATE_RE last_updated then
                   raise card_id ''metadata.last_updated'' ''must match YYYY-MM-DD''
                 else Inr (clean_sources, last_updated)))))"

text \<open>The three passes of \<^verbatim>\<open>_education_only_heuristics\<close>.\<close>

fun second_person_loop :: "string \<Rightarrow> nat \<Rightarrow> pyval list \<Rightarrow> error + unit" where
  "second_person_loop card_id i [] = Inr ()"
| "second_person_loop card_id i (s # rest) =
     (if is_str s \<and> re_search True SECOND_PERSON_RE (the_str s) then
        raise card_id (indexed ''summary'' i) ''should avoid second-person phrasing (you/your)''
      else second_person_loop card_id (Suc i) rest)"

definition non_goals_terms :: "string list" where
  "non_goals_terms = [''advice'', ''recommend'', ''optimiz'', ''personal'', ''product'']"

text \<open>\<^verbatim>\<open>" ".join([x for x in non_goals if isinstance(x, str)]).lower()\<close>\<close>

definition non_goals_joined :: "pyval list \<Rightarrow> string" where
  "non_goals_joined non_goals_raw = lower (join '' '' (map the_str (filter is_str non_goals_raw)))"

text \<open>\<^verbatim>\<open>any(term in joined for term in [...])\<close>\<close>

definition blocks_advice :: "string \<Rightarrow> bool" where
  "blocks_advice joined = list_ex (\<lambda>term. str_in term joined) non_goals_terms"

fun placeholder_sweep :: "string \<Rightarrow> (string \<times> pyval) list \<Rightarrow> error + unit" where
  "placeholder_sweep card_id [] = Inr ()"
| "placeholder_sweep card_id ((key, v) # rest) =
     (if is_str v \<and> has_placeholder (the_str v) then
        raise card_id key ''contains placeholder text like <...>''
      else placeholder_sweep card_id rest)"

definition education_only_heuristics :: "string \<Rightarrow> (string \<times> pyval) list \<Rightarrow> error + unit" where
  "education_only_heuristics card_id raw =
     (let summary_list = (case map_of raw ''summary'' of None \<Rightarrow> PList [] | Some v \<Rightarrow> v) in
      and_then
        (if is_list summary_list then second_person_loop card_id 0 (the_list summary_list)
         else Inr ())
        (\<lambda>_.
      let non_goals_raw = dict_get raw ''non_goals'' in
      and_then
        (if is_list non_goals_raw \<and> \<not> blocks_advice (non_goals_joined (the_list non_goals_raw))
         then raise card_id ''non_goals''
                ''must explicitly block advice/recommendation/optimization scope''
         else Inr ())
        (\<lambda>_. placeholder_sweep card_id raw)))"

definition validate_conceptcard :: "pyval \<Rightarrow> error + ConceptCard" where
  "validate_conceptcard raw0 =
     (if \<not> is_dict raw0 then Inl (ConceptValidationError ''ConceptCard raw value must be a dict'')
      else
        (let raw = the_dict raw0;
             card_id = card_id_for_errors raw
         in
         and_then (require_str raw card_id ''id'') (\<lambda>cid.
         and_then (require_str raw card_id ''title'') (\<lambda>title.
         and_then (require_enum raw card_id ''category'' Category_members Category_value) (\<lambda>category.
         and_then (require_enum raw card_id ''difficulty'' Difficulty_members Difficulty_value) (\<lambda>difficulty.
         and_then (require_list_of_str raw card_id ''summary'' 1) (\<lambda>summary.
         and_then (require_list_of_str raw card_id ''core_mechanics'' 1) (\<lambda>core_mechanics.
         and_then (require_list_of_str raw card_id ''misconceptions'' 1) (\<lambda>misconceptions.
         and_then (require_list_of_str raw card_id ''non_goals'' 1) (\<lambda>non_goals.
         and_then (require_examples raw card_id) (\<lambda>examples.
         and_then (require_safety raw card_id) (\<lambda>(allowed_intents, forbidden_intents).
         and_then (require_metadata raw card_id) (\<lambda>(sources, last_updated).
         and_then (education_only_heuristics card_id raw) (\<lambda>_.
           if \<not> re_fullmatch False SNAKE_RE cid then
             raise card_id ''id'' ''must be snake_case (lowercase letters, digits, underscores)''
           else
             Inr \<lparr>id' = cid, title = title, category = category, difficulty = difficulty,
                  summary = summary, core_mechanics = core_mechanics, examples = examples,
                  misconceptions = misconceptions, non_goals = non_goals,
                  allowed_intents = allowed_intents, forbidden_intents = forbidden_intents,
                  sources = sources, last_updated = last_updated\<rparr>))))))))))))))"

text \<open>The loop of \<^verbatim>\<open>validate_all_conceptcards\<close> with its two accumulators.\<close>

fun validate_all_loop ::
  "pyval list \<Rightarrow> ConceptCard list \<Rightarrow> string set \<Rightarrow> error + ConceptCard list" where
  "validate_all_loop [] cards seen_ids = Inr cards"
| "validate_all_loop (raw # rest) cards seen_ids =
     and_then (validate_conceptcard raw) (\<lambda>c.
       if id' c \<in> seen_ids then
         Inl (ConceptValidationError (''Duplicate ConceptCard id detected: '' @ id' c))
       else validate_all_loop rest (cards @ [c]) (insert (id' c) seen_ids))"

definition validate_all_conceptcards :: "pyval list \<Rightarrow> error + ConceptCard list" where
  "validate_all_conceptcards raw_cards = validate_all_loop raw_cards [] {}"

section \<open>Notions used to state and prove the properties\<close>

text \<open>
  \<open>steps p u q\<close>: from the position \<open>p\<close>, consuming the text \<open>u\<close> leads to the
  position \<open>q\<close>.
\<close>

definition steps :: "pos \<Rightarrow> string \<Rightarrow> pos \<Rightarrow> bool" where
  "steps p u q = (snd p = u @ snd q \<and> fst q = (if u = [] then fst p else is_word (last u)))"

text \<open>
  Three syntactic checks on a pattern, each on the safe side: no match is empty; the
  first character of a non-empty match is not whitespace; the last character of a
  non-empty match is not whitespace.
\<close>

fun never_empty :: "regex \<Rightarrow> bool" where
  "never_empty (Lit w) = (w \<noteq> [])"
| "never_empty (Set c) = True"
| "never_empty Bnd = False"
| "never_empty (Seq r1 r2) = (never_empty r1 \<or> never_empty r2)"
| "never_empty (Alt r1 r2) = (never_empty r1 \<and> never_empty r2)"
| "never_empty (Rep c lo hi) = (0 < lo)"

fun first_solid :: "regex \<Rightarrow> bool" where
  "first_solid (Lit w) = (w = [] \<or> \<not> isspace (hd w))"
| "first_solid (Set c) = False"
| "first_solid Bnd = True"
| "first_solid (Seq r1 r2) = (first_solid r1 \<and> (never_empty r1 \<or> first_solid r2))"
| "first_solid (Alt r1 r2) = (first_solid r1 \<and> first_solid r2)"
| "first_solid (Rep c lo hi) = False"

fun last_solid :: "regex \<Rightarrow> bool" where
  "last_solid (Lit w) = (w = [] \<or> \<not> isspace (last w))"
| "last_solid (Set c) = False"
| "last_solid Bnd = True"
| "last_solid (Seq r1 r2) = (last_solid r2 \<and> (never_empty r2 \<or> last_solid r1))"
| "last_solid (Alt r1 r2) = (last_solid r1 \<and> last_solid r2)"
| "last_solid (Rep c lo hi) = False"

definition solid :: "regex \<Rightarrow> bool" where
  "solid r = (never_empty r \<and> first_solid r \<and> last_solid r)"

text \<open>The words of a text: its maximal runs of word characters, in order.\<close>

function words :: "string \<Rightarrow> string list" where
  "words [] = []"
| "words (c # s) =
     (if is_word c then (c # takeWhile is_word s) # words (dropWhile is_word s) else words s)"
  by pat_completeness auto
termination
  by (relation "measure length") (auto simp: le_imp_less_Suc length_dropWhile_le)




section \<open>Notions of the specification\<close>

text \<open>The string values of a value, at any nesting depth (keys are not values).\<close>

fun strings_of :: "pyval \<Rightarrow> string list" where
  "strings_of (PStr s) = [s]"
| "strings_of (PList xs) = concat (map strings_of xs)"
| "strings_of (PDict d) = concat (map (\<lambda>kv. strings_of (snd kv)) d)"
| "strings_of v = []"

text \<open>The strings among the elements of a list value.\<close>

definition str_items :: "pyval \<Rightarrow> string list" where
  "str_items v = map the_str (filter is_str (the_list v))"

text \<open>
  The strings of a record that the validator looks at: the top-level string values,
  the string elements of the four list fields, the scenario and the explanation of
  each example, the entries of the two intent lists, the sources and the date.
\<close>

definition checked_strings :: "(string \<times> pyval) list \<Rightarrow> string list" where
  "checked_strings raw =
     map the_str (filter is_str (map snd raw))
     @ str_items (dict_get raw ''summary'')
     @ str_items (dict_get raw ''core_mechanics'')
     @ str_items (dict_get raw ''misconceptions'')
     @ str_items (dict_get raw ''non_goals'')
     @ concat (map (\<lambda>ex. [the_str (dict_get (the_dict ex) ''scenario''),
                           the_str (dict_get (the_dict ex) ''explanation'')])
               (the_list (dict_get raw ''examples'')))
     @ str_items (dict_get (the_dict (dict_get raw ''safety'')) ''allowed_intents'')
     @ str_items (dict_get (the_dict (dict_get raw ''safety'')) ''forbidden_intents'')
     @ str_items (dict_get (the_dict (dict_get raw ''metadata'')) ''sources'')
     @ [the_str (dict_get (the_dict (dict_get raw ''metadata'')) ''last_updated'')]"


text \<open>
  Modelled from the spec: the repository has no serializer for \<open>ConceptCard\<close>. The
  serialized form of a card is the raw record with enum values as their strings,
  examples as scenario/explanation mappings, the intents under \<open>safety\<close>, and the
  sources and the date under \<open>metadata\<close>.
\<close>

definition serialize_fields :: "ConceptCard \<Rightarrow> (string \<times> pyval) list" where
  "serialize_fields c =
       [(''id'', PStr (id' c)),
        (''title'', PStr (title c)),
        (''category'', PStr (Category_value (category c))),
        (''difficulty'', PStr (Difficulty_value (difficulty c))),
        (''summary'', PList (map PStr (summary c))),
        (''core_mechanics'', PList (map PStr (core_mechanics c))),
        (''examples'',
         PList (map (\<lambda>e. PDict [(''scenario'', PStr (scenario e)),
                                (''explanation'', PStr (explanation e))])
                  (examples c))),
        (''misconceptions'', PList (map PStr (misconceptions c))),
        (''non_goals'', PList (map PStr (non_goals c))),
        (''safety'',
         PDict [(''allowed_intents'', PList (map (\<lambda>i. PStr (Intent_value i)) (allowed_intents c))),
                (''forbidden_intents'',
                 PList (map (\<lambda>i. PStr (Intent_value i)) (forbidden_intents c)))]),
        (''metadata'',
         PDict [(''sources'', PList (map PStr (sources c))),
                (''last_updated'', PStr (last_updated c))])]"

definition serialize_conceptcard :: "ConceptCard \<Rightarrow> pyval" where
  "serialize_conceptcard c = PDict (serialize_fields c)"

text \<open>A string as the validator stores it: trimmed, not empty, free of placeholders.\<close>

definition clean :: "string \<Rightarrow> bool" where
  "clean s = (strip s = s \<and> s \<noteq> [] \<and> \<not> has_placeholder s)"

text \<open>What the loop of \<^verbatim>\<open>_require_examples\<close> asks of one example.\<close>

definition example_ok :: "pyval \<Rightarrow> bool" where
  "example_ok ex =
     (is_dict ex
      \<and> \<not> not_nonempty_str (dict_get (the_dict ex) ''scenario'')
      \<and> \<not> not_nonempty_str (dict_get (the_dict ex) ''explanation'')
      \<and> \<not> has_placeholder (the_str (dict_get (the_dict ex) ''scenario''))
      \<and> \<not> has_placeholder (the_str (dict_get (the_dict ex) ''explanation'')))"

section \<open>Sample records\<close>

text \<open>
  A record in the shape of the repository's test records, with the id and the
  non-goals left open, used to run the validator on concrete input.
\<close>

definition sample_fields :: "string \<Rightarrow> string list \<Rightarrow> (string \<times> pyval) list" where
  "sample_fields cid ngs =
     [(''id'', PStr cid),
      (''title'', PStr '' Credit Score ''),
      (''category'', PStr ''credit''),
      (''difficulty'', PStr ''beginner''),
      (''summary'', PList [PStr ''ok '']),
      (''core_mechanics'', PList [PStr ''ok'']),
      (''examples'', PList [PDict [(''scenario'', PStr '' a''), (''explanation'', PStr ''b'')]]),
      (''misconceptions'', PList [PStr ''ok'']),
      (''non_goals'', PList (map PStr ngs)),
      (''safety'', PDict [(''allowed_intents'', PList [PStr ''definition_lookup'']),
                          (''forbidden_intents'',
                           PList [PStr ''personal_advice'', PStr ''product_recommendation''])]),
      (''metadata'', PDict [(''sources'', PList [PStr ''https://example.com'']),
                            (''last_updated'', PStr ''2025-12-25'')])]"

definition sample_card :: "string \<Rightarrow> string list \<Rightarrow> ConceptCard" where
  "sample_card cid ngs =
     \<lparr>id' = cid, title = ''Credit Score'', category = CREDIT, difficulty = BEGINNER,
      summary = [''ok''], core_mechanics = [''ok''],
      examples = [\<lparr>scenario = ''a'', explanation = ''b''\<rparr>],
      misconceptions = [''ok''], non_goals = ngs,
      allowed_intents = [DEFINITION_LOOKUP],
      forbidden_intents = [PERSONAL_ADVICE, PRODUCT_RECOMMENDATION],
      sources = [''https://example.com''], last_updated = ''2025-12-25''\<rparr>"

section \<open>Properties of the text primitives\<close>

subsection \<open>Stripping\<close>

lemma rstrip_append: "\<exists>ws. s = rstrip s @ ws \<and> (\<forall>c \<in> set ws. isspace c)"
proof -
  have "rev s = takeWhile isspace (rev s) @ dropWhile isspace (rev s)"
    by simp
  then have "s = rev (dropWhile isspace (rev s)) @ rev (takeWhile isspace (rev s))"
    by (metis rev_append rev_rev_ident)
  moreover have "\<forall>c \<in> set (rev (takeWhile isspace (rev s))). isspace c"
    by (auto dest: set_takeWhileD)
  ultimately show ?thesis
    unfolding rstrip_def by blast
qed

lemma rstrip_last: "rstrip s \<noteq> [] \<Longrightarrow> \<not> isspace (last (rstrip s))"
proof -
  assume a: "rstrip s \<noteq> []"
  then have "dropWhile isspace (rev s) \<noteq> []"
    by (simp add: rstrip_def)
  then have "\<not> isspace (hd (dropWhile isspace (rev s)))"
    by (rule hd_dropWhile)
  with a show ?thesis
    by (simp add: rstrip_def last_rev)
qed

lemma lstrip_hd: "lstrip s \<noteq> [] \<Longrightarrow> \<not> isspace (hd (lstrip s))"
  unfolding lstrip_def by (rule hd_dropWhile)

lemma lstrip_append: "\<exists>ws. s = ws @ lstrip s \<and> (\<forall>c \<in> set ws. isspace c)"
proof -
  have "s = takeWhile isspace s @ dropWhile isspace s"
    by simp
  moreover have "\<forall>c \<in> set (takeWhile isspace s). isspace c"
    by (auto dest: set_takeWhileD)
  ultimately show ?thesis
    unfolding lstrip_def by blast
qed

lemma strip_decomp:
  "\<exists>pre post. s = pre @ strip s @ post \<and> (\<forall>c \<in> set pre. isspace c) \<and> (\<forall>c \<in> set post. isspace c)"
proof -
  obtain pre where p: "s = pre @ lstrip s" "\<forall>c \<in> set pre. isspace c"
    using lstrip_append by blast
  obtain post where q: "lstrip s = rstrip (lstrip s) @ post" "\<forall>c \<in> set post. isspace c"
    using rstrip_append by blast
  from p q have "s = pre @ strip s @ post"
    by (simp add: strip_def)
  with p q show ?thesis
    by blast
qed

lemma strip_hd: "strip s \<noteq> [] \<Longrightarrow> \<not> isspace (hd (strip s))"
proof -
  assume a: "strip s \<noteq> []"
  obtain post where q: "lstrip s = strip s @ post"
    using rstrip_append [of "lstrip s"] by (auto simp: strip_def)
  with a have "hd (strip s) = hd (lstrip s)"
    by (metis hd_append2)
  moreover from a q have "lstrip s \<noteq> []"
    by auto
  ultimately show ?thesis
    using lstrip_hd by simp
qed

lemma strip_last: "strip s \<noteq> [] \<Longrightarrow> \<not> isspace (last (strip s))"
  unfolding strip_def by (rule rstrip_last)

lemma strip_trimmed:
  assumes "s = [] \<or> (\<not> isspace (hd s) \<and> \<not> isspace (last s))"
  shows "strip s = s"
proof (cases "s = []")
  case True
  then show ?thesis
    by (simp add: strip_def lstrip_def rstrip_def)
next
  case False
  with assms have h: "\<not> isspace (hd s)" and l: "\<not> isspace (last s)"
    by auto
  from False h have "lstrip s = s"
    by (cases s) (simp_all add: lstrip_def)
  moreover from False l have "rstrip s = s"
    by (cases "rev s") (simp_all add: rstrip_def last_rev [symmetric] hd_rev)
  ultimately show ?thesis
    by (simp add: strip_def)
qed

lemma strip_idem [simp]: "strip (strip s) = strip s"
  by (rule strip_trimmed) (use strip_hd strip_last in blast)

section \<open>Properties of the matcher\<close>

subsection \<open>Characters\<close>

lemma isspace_not_word: "isspace c \<Longrightarrow> \<not> is_word c"
  by (auto simp: isspace_def is_word_def isdigit_def isupper_def islower_def Let_def)

lemma isspace_lower_char [simp]: "isspace (lower_char c) = isspace c"
  by (auto simp: lower_char_def isspace_def isupper_def Let_def)


lemma ceq_isspace: "ceq ic a c \<Longrightarrow> isspace c = isspace a"
  by (metis ceq_def isspace_lower_char)


subsection \<open>Positions\<close>

lemma steps_refl [simp]: "steps p [] p"
  by (simp add: steps_def)

lemma steps_trans: "steps p u q \<Longrightarrow> steps q v r \<Longrightarrow> steps p (u @ v) r"
  by (auto simp: steps_def)

lemma steps_length: "steps p u q \<Longrightarrow> length (snd p) = length u + length (snd q)"
  by (auto simp: steps_def)

lemma steps_unique: "steps p u q \<Longrightarrow> steps p u' q \<Longrightarrow> u = u'"
  by (auto simp: steps_def)

lemma last_take_nth: "0 < n \<Longrightarrow> n \<le> length xs \<Longrightarrow> last (take n xs) = xs ! (n - 1)"
  by (cases n) (auto simp: take_Suc_conv_app_nth)

lemma steps_advance: "n \<le> length (snd p) \<Longrightarrow> steps p (take n (snd p)) (advance p n)"
  by (auto simp: steps_def advance_def last_take_nth)

lemma lit_match_length: "lit_match ic w s \<Longrightarrow> length w \<le> length s"
  by (induction ic w s rule: lit_match.induct) auto

lemma lit_match_nth: "lit_match ic w s \<Longrightarrow> i < length w \<Longrightarrow> ceq ic (w ! i) (s ! i)"
  by (induction ic w s arbitrary: i rule: lit_match.induct) (auto simp: nth_Cons')

lemma le_length_takeWhile_iff:
  "k \<le> length (takeWhile P s) \<longleftrightarrow> k \<le> length s \<and> (\<forall>i<k. P (s ! i))"
proof (induction s arbitrary: k)
  case Nil
  then show ?case by auto
next
  case (Cons a s)
  show ?case
  proof (cases k)
    case 0
    then show ?thesis by simp
  next
    case (Suc j)
    then show ?thesis
      using Cons.IH [of j] by (auto simp: less_Suc_eq_0_disj)
  qed
qed

lemma ends_Rep_iff:
  "q \<in> set (ends ic (Rep c lo hi) p) \<longleftrightarrow>
   (\<exists>k. lo \<le> k \<and> k \<le> length (snd p) \<and> (\<forall>i<k. cmatch ic c (snd p ! i))
        \<and> (case hi of None \<Rightarrow> True | Some h \<Rightarrow> k \<le> h) \<and> q = advance p k)"
proof -
  let ?run = "length (takeWhile (cmatch ic c) (snd p))"
  have "set (ends ic (Rep c lo hi) p)
      = advance p ` {k. lo \<le> k \<and> k \<le> ?run \<and> (case hi of None \<Rightarrow> True | Some h \<Rightarrow> k \<le> h)}"
    by (cases hi) (auto simp: Let_def less_Suc_eq_le simp del: upt_Suc)
  then show ?thesis
    unfolding le_length_takeWhile_iff by auto
qed

lemma ends_Alt_iff:
  "q \<in> set (ends ic (Alt r1 r2) p) \<longleftrightarrow> q \<in> set (ends ic r1 p) \<or> q \<in> set (ends ic r2 p)"
  by simp

lemma ends_Seq_iff:
  "q \<in> set (ends ic (Seq r1 r2) p) \<longleftrightarrow> (\<exists>m \<in> set (ends ic r1 p). q \<in> set (ends ic r2 m))"
  by auto

lemma ends_steps: "q \<in> set (ends ic r p) \<Longrightarrow> \<exists>u. steps p u q"
proof (induction r arbitrary: p q)
  case (Lit w)
  then show ?case
    by (auto split: if_split_asm dest!: lit_match_length intro: steps_advance)
next
  case (Set c)
  then show ?case
    using steps_advance [of 1 p] by (cases "snd p") (auto split: if_split_asm)
next
  case Bnd
  then show ?case
    by (auto split: if_split_asm intro: steps_refl)
next
  case (Seq r1 r2)
  then show ?case
    unfolding ends_Seq_iff by (meson steps_trans)
next
  case (Alt r1 r2)
  from Alt.prems show ?case
    unfolding ends_Alt_iff using Alt.IH by (elim disjE) blast+
next
  case (Rep c lo hi)
  then show ?case
    unfolding ends_Rep_iff by (auto intro: steps_advance)
qed

lemma ends_length_le: "q \<in> set (ends ic r p) \<Longrightarrow> length (snd q) \<le> length (snd p)"
  by (auto dest!: ends_steps steps_length)

lemma never_empty_shorter:
  "never_empty r \<Longrightarrow> q \<in> set (ends ic r p) \<Longrightarrow> length (snd q) < length (snd p)"
proof (induction r arbitrary: p q)
  case (Lit w)
  then have w: "0 < length w" "length w \<le> length (snd p)" and q: "q = advance p (length w)"
    by (auto split: if_split_asm dest!: lit_match_length)
  from w have "length (snd p) - length w < length (snd p)"
    by arith
  with q w show ?case
    by (simp add: advance_def)
next
  case (Set c)
  then show ?case
    by (cases "snd p") (auto split: if_split_asm simp: advance_def)
next
  case Bnd
  then show ?case by simp
next
  case (Seq r1 r2)
  from Seq.prems obtain m where m: "m \<in> set (ends ic r1 p)" "q \<in> set (ends ic r2 m)"
    unfolding ends_Seq_iff by blast
  then have "length (snd m) \<le> length (snd p)" "length (snd q) \<le> length (snd m)"
    by (auto dest: ends_length_le)
  moreover have "length (snd m) < length (snd p) \<or> length (snd q) < length (snd m)"
    using Seq.IH(1) [OF _ m(1)] Seq.IH(2) [OF _ m(2)] Seq.prems(1) by (cases "never_empty r1") simp_all
  ultimately show ?case by linarith
next
  case (Alt r1 r2)
  from Alt.prems show ?case
    unfolding ends_Alt_iff using Alt.IH by (elim disjE) auto
next
  case (Rep c lo hi)
  then show ?case
    unfolding ends_Rep_iff by (auto simp: advance_def)
qed

lemma first_solid_hd:
  "first_solid r \<Longrightarrow> q \<in> set (ends ic r p) \<Longrightarrow> length (snd q) < length (snd p) \<Longrightarrow>
   \<not> isspace (hd (snd p))"
proof (induction r arbitrary: p q)
  case (Lit w)
  then show ?case
    by (cases w; cases "snd p") (auto split: if_split_asm simp: advance_def dest: ceq_isspace)
next
  case (Set c)
  then show ?case by simp
next
  case Bnd
  then show ?case by (auto split: if_split_asm)
next
  case (Seq r1 r2)
  from Seq.prems obtain m where m: "m \<in> set (ends ic r1 p)" "q \<in> set (ends ic r2 m)"
    unfolding ends_Seq_iff by blast
  show ?case
  proof (cases "length (snd m) < length (snd p)")
    case True
    with Seq.IH(1) Seq.prems(1) m show ?thesis by auto
  next
    case False
    obtain u where u: "steps p u m"
      using ends_steps m(1) by blast
    with False have "u = []"
      by (auto dest: steps_length)
    with u have sm: "snd m = snd p"
      by (simp add: steps_def)
    from False m(1) have "\<not> never_empty r1"
      using never_empty_shorter by blast
    with Seq.prems(1) have "first_solid r2"
      by simp
    from Seq.IH(2) [OF this m(2)] Seq.prems(3) sm show ?thesis
      by simp
  qed
next
  case (Alt r1 r2)
  from Alt.prems show ?case
    unfolding ends_Alt_iff using Alt.IH by (elim disjE) auto
next
  case (Rep c lo hi)
  then show ?case by simp
qed

lemma last_solid_last:
  "last_solid r \<Longrightarrow> q \<in> set (ends ic r p) \<Longrightarrow> steps p u q \<Longrightarrow> u \<noteq> [] \<Longrightarrow>
   \<not> isspace (last u)"
proof (induction r arbitrary: p q u)
  case (Lit w)
  from Lit.prems have lm: "lit_match ic w (snd p)" and q: "q = advance p (length w)"
    by (auto split: if_split_asm)
  then have lw: "length w \<le> length (snd p)"
    by (auto dest: lit_match_length)
  with q Lit.prems(3) have u: "u = take (length w) (snd p)"
    using steps_advance steps_unique by blast
  with Lit.prems(4) lw have w: "w \<noteq> []"
    by auto
  with lw u have "last u = snd p ! (length w - 1)"
    by (simp add: last_take_nth)
  moreover from w have "last w = w ! (length w - 1)"
    by (simp add: last_conv_nth)
  moreover from w lm have "ceq ic (w ! (length w - 1)) (snd p ! (length w - 1))"
    by (auto intro: lit_match_nth)
  ultimately show ?case
    using Lit.prems(1) w by (auto dest: ceq_isspace)
next
  case (Set c)
  then show ?case by simp
next
  case Bnd
  then show ?case
    by (auto split: if_split_asm simp: steps_def)
next
  case (Seq r1 r2)
  from Seq.prems obtain m where m: "m \<in> set (ends ic r1 p)" "q \<in> set (ends ic r2 m)"
    unfolding ends_Seq_iff by blast
  obtain u1 u2 where u1: "steps p u1 m" and u2: "steps m u2 q"
    using ends_steps m by blast
  then have u: "u = u1 @ u2"
    using steps_trans steps_unique Seq.prems(3) by blast
  show ?case
  proof (cases "u2 = []")
    case False
    with Seq.IH(2) [OF _ m(2) u2] Seq.prems(1) u show ?thesis
      by simp
  next
    case True
    with u2 have "length (snd q) = length (snd m)"
      by (auto dest: steps_length)
    with m(2) have "\<not> never_empty r2"
      using never_empty_shorter by fastforce
    with Seq.prems(1) have "last_solid r1"
      by simp
    with Seq.IH(1) [OF _ m(1) u1] True u Seq.prems(4) show ?thesis
      by simp
  qed
next
  case (Alt r1 r2)
  from Alt.prems show ?case
    unfolding ends_Alt_iff using Alt.IH by (elim disjE) auto
next
  case (Rep c lo hi)
  then show ?case by simp
qed

subsection \<open>Searching\<close>

lemma search_from_iff:
  "search_from ic r (b, s) \<longleftrightarrow>
   (\<exists>u v. s = u @ v \<and> ends ic r (if u = [] then b else is_word (last u), v) \<noteq> [])"
proof (induction s arbitrary: b)
  case Nil
  then show ?case by simp
next
  case (Cons c s)
  show ?case
  proof
    assume "search_from ic r (b, c # s)"
    then consider "ends ic r (b, c # s) \<noteq> []" | "search_from ic r (is_word c, s)"
      by auto
    then show "\<exists>u v. c # s = u @ v \<and> ends ic r (if u = [] then b else is_word (last u), v) \<noteq> []"
    proof cases
      case 1
      then have "c # s = [] @ (c # s) \<and> ends ic r (if [] = [] then b else is_word (last []), c # s) \<noteq> []"
        by simp
      then show ?thesis by blast
    next
      case 2
      then obtain u v where "s = u @ v"
        and "ends ic r (if u = [] then is_word c else is_word (last u), v) \<noteq> []"
        using Cons.IH by blast
      then have "c # s = (c # u) @ v
        \<and> ends ic r (if c # u = [] then b else is_word (last (c # u)), v) \<noteq> []"
        by auto
      then show ?thesis by blast
    qed
  next
    assume "\<exists>u v. c # s = u @ v \<and> ends ic r (if u = [] then b else is_word (last u), v) \<noteq> []"
    then obtain u v where uv: "c # s = u @ v"
      and e: "ends ic r (if u = [] then b else is_word (last u), v) \<noteq> []"
      by blast
    show "search_from ic r (b, c # s)"
    proof (cases u)
      case Nil
      with uv e show ?thesis by auto
    next
      case (Cons a u')
      with uv have "s = u' @ v" and "a = c"
        by auto
      moreover from Cons e \<open>a = c\<close>
      have "ends ic r (if u' = [] then is_word c else is_word (last u'), v) \<noteq> []"
        by (auto split: if_split_asm)
      ultimately have "search_from ic r (is_word c, s)"
        using Cons.IH by blast
      then show ?thesis by simp
    qed
  qed
qed

lemma re_search_iff:
  "re_search ic r s \<longleftrightarrow>
   (\<exists>u v. s = u @ v \<and> ends ic r (u \<noteq> [] \<and> is_word (last u), v) \<noteq> [])"
proof -
  have "(if u = [] then False else is_word (last u)) = (u \<noteq> [] \<and> is_word (last u))" for u
    by simp
  then show ?thesis
    unfolding re_search_def search_from_iff by simp
qed

subsection \<open>Text to the right of a match\<close>

lemma advance_append_iff:
  "n \<le> length (x @ post) \<Longrightarrow>
   (advance (b, x @ post) n = (qb, y @ post)) = (n \<le> length x \<and> advance (b, x) n = (qb, y))"
proof (cases "n \<le> length x")
  case True
  then show ?thesis
    by (cases "n = 0") (auto simp: advance_def nth_append)
next
  case False
  assume "n \<le> length (x @ post)"
  with False have "length (drop n (x @ post)) < length (y @ post)"
    by simp
  then have "drop n (x @ post) \<noteq> y @ post"
    by (metis less_irrefl)
  with False show ?thesis
    unfolding advance_def by (cases "n = 0") (simp_all del: drop_append)
qed

lemma lit_match_append: "length w \<le> length x \<Longrightarrow> lit_match ic w (x @ post) = lit_match ic w x"
  by (induction ic w x rule: lit_match.induct) auto

lemma ends_append_right:
  assumes "post = [] \<or> \<not> is_word (hd post)"
  shows "((qb, y @ post) \<in> set (ends ic r (b, x @ post))) = ((qb, y) \<in> set (ends ic r (b, x)))"
proof (induction r arbitrary: b x y qb)
  case (Lit w)
  show ?case
  proof (cases "length w \<le> length x")
    case True
    then show ?thesis
      using advance_append_iff [of "length w" x post b qb y] lit_match_append [OF True, of ic post]
      by auto
  next
    case False
    then have "\<not> lit_match ic w x"
      using lit_match_length by blast
    moreover have "advance (b, x @ post) (length w) \<noteq> (qb, y @ post)"
      if "lit_match ic w (x @ post)"
      using advance_append_iff [of "length w" x post b qb y] lit_match_length [OF that] False
      by simp
    ultimately show ?thesis
      by auto
  qed
next
  case (Set c)
  show ?case
  proof (cases x)
    case Nil
    then show ?thesis
      by (cases post) (auto simp: advance_def)
  next
    case (Cons a x')
    then show ?thesis
      by (auto simp: advance_def)
  qed
next
  case Bnd
  show ?case
    using assms
    by (cases x; cases post) (auto simp: at_boundary_def)
next
  case (Seq r1 r2)
  show ?case
  proof
    assume "(qb, y @ post) \<in> set (ends ic (Seq r1 r2) (b, x @ post))"
    then obtain m where m: "m \<in> set (ends ic r1 (b, x @ post))"
      "(qb, y @ post) \<in> set (ends ic r2 m)"
      unfolding ends_Seq_iff by blast
    then obtain u where "steps m u (qb, y @ post)"
      using ends_steps by blast
    then have sm: "m = (fst m, (u @ y) @ post)"
      by (cases m) (simp add: steps_def)
    with m have "(fst m, u @ y) \<in> set (ends ic r1 (b, x))"
      and "(qb, y) \<in> set (ends ic r2 (fst m, u @ y))"
      using Seq.IH(1) [of "fst m" "u @ y" b x] Seq.IH(2) [of qb y "fst m" "u @ y"]
      by metis+
    then show "(qb, y) \<in> set (ends ic (Seq r1 r2) (b, x))"
      unfolding ends_Seq_iff by blast
  next
    assume "(qb, y) \<in> set (ends ic (Seq r1 r2) (b, x))"
    then obtain mb z where m: "(mb, z) \<in> set (ends ic r1 (b, x))"
      "(qb, y) \<in> set (ends ic r2 (mb, z))"
      unfolding ends_Seq_iff by auto
    then have "(mb, z @ post) \<in> set (ends ic r1 (b, x @ post))"
      and "(qb, y @ post) \<in> set (ends ic r2 (mb, z @ post))"
      using Seq.IH by blast+
    then show "(qb, y @ post) \<in> set (ends ic (Seq r1 r2) (b, x @ post))"
      unfolding ends_Seq_iff by blast
  qed
next
  case (Alt r1 r2)
  then show ?case
    unfolding ends_Alt_iff by blast
next
  case (Rep c lo hi)
  have "(\<exists>k. lo \<le> k \<and> k \<le> length (x @ post) \<and> (\<forall>i<k. cmatch ic c ((x @ post) ! i))
          \<and> (case hi of None \<Rightarrow> True | Some h \<Rightarrow> k \<le> h)
          \<and> (qb, y @ post) = advance (b, x @ post) k)
      = (\<exists>k. lo \<le> k \<and> k \<le> length x \<and> (\<forall>i<k. cmatch ic c (x ! i))
          \<and> (case hi of None \<Rightarrow> True | Some h \<Rightarrow> k \<le> h)
          \<and> (qb, y) = advance (b, x) k)"
    (is "(\<exists>k. ?L k) = (\<exists>k. ?R k)")
  proof
    assume "\<exists>k. ?L k"
    then obtain k where k: "?L k" by blast
    then have "k \<le> length x" and "advance (b, x) k = (qb, y)"
      using advance_append_iff [of k x post b qb y] by auto
    with k have "?R k"
      by (auto simp: nth_append)
    then show "\<exists>k. ?R k" by blast
  next
    assume "\<exists>k. ?R k"
    then obtain k where k: "?R k" by blast
    then have "advance (b, x @ post) k = (qb, y @ post)"
      using advance_append_iff [of k x post b qb y] by auto
    with k have "?L k"
      by (auto simp: nth_append)
    then show "\<exists>k. ?L k" by blast
  qed
  then show ?case
    unfolding ends_Rep_iff by simp
qed

subsection \<open>Searching a text and its stripped form\<close>

lemma re_search_embed:
  assumes pre: "pre = [] \<or> \<not> is_word (last pre)"
    and post: "post = [] \<or> \<not> is_word (hd post)"
    and t: "re_search ic r t"
  shows "re_search ic r (pre @ t @ post)"
proof -
  from t obtain u v where uv: "t = u @ v"
    and e: "ends ic r (u \<noteq> [] \<and> is_word (last u), v) \<noteq> []"
    unfolding re_search_iff by blast
  from e obtain qb y where "(qb, y) \<in> set (ends ic r (u \<noteq> [] \<and> is_word (last u), v))"
    by (cases "ends ic r (u \<noteq> [] \<and> is_word (last u), v)") auto
  then have "(qb, y @ post) \<in> set (ends ic r (u \<noteq> [] \<and> is_word (last u), v @ post))"
    using ends_append_right [OF post] by blast
  moreover from pre have "(pre @ u \<noteq> [] \<and> is_word (last (pre @ u))) = (u \<noteq> [] \<and> is_word (last u))"
    by (cases "u = []") auto
  ultimately have "ends ic r (pre @ u \<noteq> [] \<and> is_word (last (pre @ u)), v @ post) \<noteq> []"
    by auto
  moreover from uv have "pre @ t @ post = (pre @ u) @ (v @ post)"
    by simp
  ultimately show ?thesis
    unfolding re_search_iff by blast
qed

lemma re_search_core:
  assumes r: "solid r"
    and pre: "\<forall>c \<in> set pre. isspace c"
    and post: "\<forall>c \<in> set post. isspace c"
    and s: "re_search ic r (pre @ t @ post)"
  shows "re_search ic r t"
proof -
  from s obtain u v where uv: "pre @ t @ post = u @ v"
    and e: "ends ic r (u \<noteq> [] \<and> is_word (last u), v) \<noteq> []"
    unfolding re_search_iff by blast
  let ?b = "u \<noteq> [] \<and> is_word (last u)"
  from e obtain q where q: "q \<in> set (ends ic r (?b, v))"
    by (cases "ends ic r (?b, v)") auto
  then obtain m where m: "steps (?b, v) m q"
    using ends_steps by blast
  then have v: "v = m @ snd q"
    by (simp add: steps_def)
  from r q have sh: "length (snd q) < length v"
    using never_empty_shorter [of r q ic "(?b, v)"] by (simp add: solid_def)
  with v have mne: "m \<noteq> []"
    by auto
  from r q sh have "\<not> isspace (hd v)"
    using first_solid_hd [of r q ic "(?b, v)"] by (simp add: solid_def)
  with v mne have hm: "\<not> isspace (hd m)"
    by simp
  from r q m mne have lm: "\<not> isspace (last m)"
    using last_solid_last [of r q ic "(?b, v)" m] by (simp add: solid_def)
  \<comment> \<open>the match starts behind \<open>pre\<close>\<close>
  from uv v have "pre @ (t @ post) = u @ (m @ snd q)"
    by simp
  then obtain w where "(pre = u @ w \<and> w @ (t @ post) = m @ snd q) \<or> (pre @ w = u \<and> t @ post = w @ (m @ snd q))"
    unfolding append_eq_append_conv2 by blast
  moreover have "w = []" if "pre = u @ w" "w @ (t @ post) = m @ snd q"
  proof (rule ccontr)
    assume "w \<noteq> []"
    with that mne have "hd m = hd w"
      by (metis hd_append2)
    moreover from \<open>w \<noteq> []\<close> that(1) have "hd w \<in> set pre"
      by auto
    ultimately show False
      using pre hm by auto
  qed
  ultimately obtain u' where u': "u = pre @ u'" and tp: "t @ post = (u' @ m) @ snd q"
    by auto
  \<comment> \<open>and ends before \<open>post\<close>\<close>
  from tp obtain w where "(t = (u' @ m) @ w \<and> w @ post = snd q) \<or> (t @ w = u' @ m \<and> post = w @ snd q)"
    unfolding append_eq_append_conv2 by blast
  moreover have "w = []" if "t @ w = u' @ m" "post = w @ snd q"
  proof (rule ccontr)
    assume "w \<noteq> []"
    with that(1) mne have "last m = last w"
      by (metis last_appendR)
    moreover from \<open>w \<noteq> []\<close> that(2) have "last w \<in> set post"
      by auto
    ultimately show False
      using post lm by auto
  qed
  ultimately obtain w' where t: "t = u' @ (m @ w')" and sq: "snd q = w' @ post"
    by auto
  have p: "post = [] \<or> \<not> is_word (hd post)"
    using post isspace_not_word by (cases post) auto
  from q v sq have "(fst q, w' @ post) \<in> set (ends ic r (?b, (m @ w') @ post))"
    by (metis append.assoc prod.collapse)
  then have "(fst q, w') \<in> set (ends ic r (?b, m @ w'))"
    using ends_append_right [OF p] by blast
  moreover from u' pre have "?b = (u' \<noteq> [] \<and> is_word (last u'))"
    using isspace_not_word by (cases "u' = []") auto
  ultimately have "ends ic r (u' \<noteq> [] \<and> is_word (last u'), m @ w') \<noteq> []"
    by auto
  with t show ?thesis
    unfolding re_search_iff by blast
qed

lemma re_search_strip: "re_search ic r (strip s) \<Longrightarrow> re_search ic r s"
proof -
  assume a: "re_search ic r (strip s)"
  obtain pre post where d: "s = pre @ strip s @ post"
    "\<forall>c \<in> set pre. isspace c" "\<forall>c \<in> set post. isspace c"
    using strip_decomp by blast
  then have "pre = [] \<or> \<not> is_word (last pre)" and "post = [] \<or> \<not> is_word (hd post)"
    using isspace_not_word by (metis last_in_set, metis list.set_sel(1))
  then have "re_search ic r (pre @ strip s @ post)"
    using re_search_embed [OF _ _ a] by blast
  with d(1) show ?thesis
    by simp
qed

lemma re_search_strip_solid: "solid r \<Longrightarrow> re_search ic r s \<Longrightarrow> re_search ic r (strip s)"
  using strip_decomp [of s] re_search_core [of r _ _ ic "strip s"] by metis


subsection \<open>Words\<close>

lemma takeWhile_append_stop:
  "x = [] \<or> \<not> P (hd x) \<Longrightarrow> takeWhile P (a @ x) = takeWhile P a"
  by (induction a) (auto simp: takeWhile_eq_Nil_iff)

lemma dropWhile_append_stop:
  "x = [] \<or> \<not> P (hd x) \<Longrightarrow> dropWhile P (a @ x) = dropWhile P a @ x"
  by (induction a) (auto simp: dropWhile_eq_self_iff)

lemma words_append:
  "x = [] \<or> \<not> is_word (hd x) \<Longrightarrow> words (a @ x) = words a @ words x"
proof (induction a rule: words.induct)
  case 1
  then show ?case by simp
next
  case (2 c s)
  then show ?case
    by (simp add: takeWhile_append_stop dropWhile_append_stop)
qed

lemma words_no_word: "\<forall>c \<in> set s. \<not> is_word c \<Longrightarrow> words s = []"
  by (induction s) auto

lemma words_skip: "\<forall>c \<in> set pre. \<not> is_word c \<Longrightarrow> words (pre @ s) = words s"
  by (induction pre) auto


lemma words_strip [simp]: "words (strip s) = words s"
proof -
  obtain pre post where d: "s = pre @ strip s @ post"
    "\<forall>c \<in> set pre. isspace c" "\<forall>c \<in> set post. isspace c"
    using strip_decomp by blast
  then have pre: "\<forall>c \<in> set pre. \<not> is_word c" and post: "\<forall>c \<in> set post. \<not> is_word c"
    using isspace_not_word by blast+
  then have "post = [] \<or> \<not> is_word (hd post)"
    by (cases post) auto
  then have "words (strip s @ post) = words (strip s) @ words post"
    by (rule words_append)
  with pre post have "words (pre @ strip s @ post) = words (strip s)"
    by (simp add: words_skip words_no_word)
  with d(1) show ?thesis
    by simp
qed




subsection \<open>Word patterns\<close>











subsection \<open>Substituting and searching a word pattern\<close>











subsection \<open>What a substitution can write\<close>





subsection \<open>Substrings\<close>

lemma starts_with_prefix: "starts_with t s = prefix t s"
  by (induction t s rule: starts_with.induct) auto

lemma str_in_sublist: "str_in t s = sublist t s"
  by (induction s) (auto simp: starts_with_prefix sublist_Cons_right)

lemma sublist_skip_left:
  assumes "t \<noteq> []" and "\<not> Q (hd t)" and "\<forall>c \<in> set ws. Q c" and "sublist t (ws @ s)"
  shows "sublist t s"
  using assms(3,4)
proof (induction ws)
  case Nil
  then show ?case by simp
next
  case (Cons w ws)
  from Cons.prems(2) have "prefix t (w # ws @ s) \<or> sublist t (ws @ s)"
    by (simp add: sublist_Cons_right)
  moreover have "\<not> prefix t (w # ws @ s)"
    using assms(1,2) Cons.prems(1) by (cases t) auto
  ultimately show ?case
    using Cons by simp
qed

lemma sublist_skip_right:
  assumes "t \<noteq> []" and "\<not> Q (last t)" and "\<forall>c \<in> set ws. Q c" and "sublist t (s @ ws)"
  shows "sublist t s"
proof -
  from assms(4) have "sublist (rev t) (rev ws @ rev s)"
    by (metis rev_append sublist_rev)
  with assms(1-3) have "sublist (rev t) (rev s)"
    by (intro sublist_skip_left [of "rev t" Q "rev ws" "rev s"]) (simp_all add: hd_rev)
  then show ?thesis
    by simp
qed

lemma sublist_sep:
  assumes "c \<notin> set t" and "sublist t (a @ c # b)"
  shows "sublist t a \<or> sublist t b"
proof -
  from assms(2) consider "sublist t a" | "sublist t (c # b)"
    | t1 t2 where "t = t1 @ t2" "suffix t1 a" "prefix t2 (c # b)"
    unfolding sublist_append by blast
  then show ?thesis
  proof cases
    case 1
    then show ?thesis by simp
  next
    case 2
    then have "prefix t (c # b) \<or> sublist t b"
      by (simp add: sublist_Cons_right)
    moreover have "sublist t a" if "prefix t (c # b)"
      using that assms(1) by (cases t) auto
    ultimately show ?thesis by blast
  next
    case 3
    with assms(1) have "t2 = []"
      by (cases t2) auto
    with 3 show ?thesis by auto
  qed
qed

lemma sublist_join:
  assumes "t \<noteq> []" and "c \<notin> set t"
  shows "sublist t (join [c] xs) \<Longrightarrow> \<exists>x \<in> set xs. sublist t x"
proof (induction "[c]" xs rule: join.induct)
  case 1
  with assms(1) show ?case by simp
next
  case (2 x)
  then show ?case by simp
next
  case (3 x y xs)
  from "3.prems" have "sublist t (x @ c # join [c] (y # xs))"
    by simp
  then have "sublist t x \<or> sublist t (join [c] (y # xs))"
    using assms(2) by (rule sublist_sep [rotated])
  with "3.hyps" show ?case
    by auto
qed

lemma sublist_join_mem: "x \<in> set xs \<Longrightarrow> sublist t x \<Longrightarrow> sublist t (join sep xs)"
proof (induction sep xs rule: join.induct)
  case (1 sep)
  then show ?case by simp
next
  case (2 sep y)
  then show ?case by simp
next
  case (3 sep y z xs)
  then show ?case
    by (auto simp: sublist_append)
qed


lemma lower_append [simp]: "lower (a @ b) = lower a @ lower b"
  by (simp add: lower_def)

lemma lower_join: "lower (join sep xs) = join (lower sep) (map lower xs)"
  by (induction sep xs rule: join.induct) (simp_all add: lower_def)


lemma lower_space: "lower '' '' = '' ''"
  by code_simp

lemma lower_isspace: "\<forall>c \<in> set ws. isspace c \<Longrightarrow> \<forall>c \<in> set (lower ws). isspace c"
  by (auto simp: lower_def)

section \<open>Properties of the policy router\<close>


text \<open>
  Claim C5: for every input string, the decision returned by \<open>route\<close> has a rewrite
  exactly when its action is \<open>TRANSFORM\<close>; a decision whose action is \<open>ALLOW\<close> or
  \<open>REFUSE\<close> has no rewrite.
\<close>

theorem route_rewrite_iff_transform:
  "(rewrite (route user_text) \<noteq> None) = (action (route user_text) = TRANSFORM)
   \<and> (action (route user_text) \<in> {ALLOW, REFUSE} \<longrightarrow> rewrite (route user_text) = None)"
  by (simp add: route_def Let_def)

theorem route_rewrite_iff_transform_witness:
  "action (route ''best etf'') = TRANSFORM \<and> rewrite (route ''best etf'') \<noteq> None
   \<and> action (route ''ponzi'') = REFUSE \<and> rewrite (route ''ponzi'') = None
   \<and> action (route ''etf'') = ALLOW \<and> rewrite (route ''etf'') = None"
proof -
  have s1: "strip ''best etf'' = ''best etf''" and s2: "strip ''ponzi'' = ''ponzi''"
    and s3: "strip ''etf'' = ''etf''"
    by code_simp+
  have i1: "\<not> matches_any ILLEGAL_PATTERNS ''best etf''"
    by code_simp
  have a1: "matches_any ADVICE_PATTERNS ''best etf''"
    by code_simp
  have i2: "matches_any ILLEGAL_PATTERNS ''ponzi''"
    by code_simp
  have i3: "\<not> matches_any ILLEGAL_PATTERNS ''etf''"
    by code_simp
  have a3: "\<not> matches_any ADVICE_PATTERNS ''etf''"
    by code_simp
  have l3: "\<not> matches_any ALLOCATION_PATTERNS ''etf''"
    by code_simp
  have t3: "\<not> matches_any TIMING_PATTERNS ''etf''"
    by code_simp
  have a: "action (route ''best etf'') = TRANSFORM"
    unfolding route_def Let_def s1 using i1 a1 by simp
  have b: "action (route ''ponzi'') = REFUSE"
    unfolding route_def Let_def s2 using i2 by simp
  have c: "action (route ''etf'') = ALLOW"
    unfolding route_def Let_def s3 using i3 a3 l3 t3 by simp
  show ?thesis
    using a b c
      route_rewrite_iff_transform [of "''best etf''"]
      route_rewrite_iff_transform [of "''ponzi''"]
      route_rewrite_iff_transform [of "''etf''"]
    by simp
qed



subsection \<open>The illegal group\<close>






subsection \<open>The rewrite sanitizer\<close>
















section \<open>Properties of the record validator\<close>

subsection \<open>The error monad\<close>

lemma and_then_Inr_iff: "and_then m f = Inr y \<longleftrightarrow> (\<exists>x. m = Inr x \<and> f x = Inr y)"
  by (cases m) (simp_all add: and_then_def)

lemma and_then_Inr [simp]: "and_then (Inr x) f = f x"
  by (simp add: and_then_def)

lemma and_then_Inl [simp]: "and_then (Inl e) f = Inl e"
  by (simp add: and_then_def)

lemma raise_not_Inr [simp]: "raise card_id field msg \<noteq> Inr x"
  by (simp add: raise_def)

lemma is_str_the_str: "is_str v \<Longrightarrow> v = PStr (the_str v)"
  by (cases v) simp_all

lemma is_list_the_list: "is_list v \<Longrightarrow> v = PList (the_list v)"
  by (cases v) simp_all

lemma is_dict_the_dict: "is_dict v \<Longrightarrow> v = PDict (the_dict v)"
  by (cases v) simp_all

subsection \<open>The sample records\<close>

lemma sample_valid_apr:
  "validate_conceptcard (PDict (sample_fields ''apr'' [''no advice'']))
   = Inr (sample_card ''apr'' [''no advice''])"
  by code_simp

lemma sample_valid_credit:
  "validate_conceptcard (PDict (sample_fields '' credit_score'' [''Not personal'']))
   = Inr (sample_card ''credit_score'' [''Not personal''])"
  by code_simp

lemma sample_invalid_empty:
  "validate_conceptcard (PDict [])
   = Inl (ConceptValidationError ''[ConceptCard id=<missing-id>] id: missing required field'')"
  by code_simp

subsection \<open>What a successful validation says\<close>

lemma validate_conceptcard_Inr_iff:
  "validate_conceptcard raw0 = Inr crd \<longleftrightarrow>
   (\<exists>raw cid ti ca di su co mi ng ex al fo so lu.
      raw0 = PDict raw
      \<and> require_str raw (card_id_for_errors raw) ''id'' = Inr cid
      \<and> require_str raw (card_id_for_errors raw) ''title'' = Inr ti
      \<and> require_enum raw (card_id_for_errors raw) ''category'' Category_members Category_value = Inr ca
      \<and> require_enum raw (card_id_for_errors raw) ''difficulty'' Difficulty_members Difficulty_value = Inr di
      \<and> require_list_of_str raw (card_id_for_errors raw) ''summary'' 1 = Inr su
      \<and> require_list_of_str raw (card_id_for_errors raw) ''core_mechanics'' 1 = Inr co
      \<and> require_list_of_str raw (card_id_for_errors raw) ''misconceptions'' 1 = Inr mi
      \<and> require_list_of_str raw (card_id_for_errors raw) ''non_goals'' 1 = Inr ng
      \<and> require_examples raw (card_id_for_errors raw) = Inr ex
      \<and> require_safety raw (card_id_for_errors raw) = Inr (al, fo)
      \<and> require_metadata raw (card_id_for_errors raw) = Inr (so, lu)
      \<and> education_only_heuristics (card_id_for_errors raw) raw = Inr ()
      \<and> re_fullmatch False SNAKE_RE cid
      \<and> crd = \<lparr>id' = cid, title = ti, category = ca, difficulty = di, summary = su,
                 core_mechanics = co, examples = ex, misconceptions = mi, non_goals = ng,
                 allowed_intents = al, forbidden_intents = fo, sources = so,
                 last_updated = lu\<rparr>)"
  by (cases raw0) (auto simp: validate_conceptcard_def and_then_Inr_iff Let_def split: prod.splits)

lemma require_safety_Inr:
  assumes "require_safety raw card_id = Inr (al, fo)"
  shows "filter (\<lambda>m. m \<in> set must_forbid \<and> m \<notin> set fo) Intent_by_value = []"
    and "filter (\<lambda>m. m \<in> set al \<and> m \<in> set fo) Intent_by_value = []"
  using assms
  by (auto simp: require_safety_def and_then_Inr_iff Let_def split: if_split_asm)

lemma forbidden_superset:
  assumes "filter (\<lambda>m. m \<in> set must_forbid \<and> m \<notin> set fo) Intent_by_value = []"
  shows "PERSONAL_ADVICE \<in> set fo" and "PRODUCT_RECOMMENDATION \<in> set fo"
  using assms by (auto simp: Intent_by_value_def must_forbid_def split: if_split_asm)

lemma allowed_forbidden_disjoint:
  assumes "filter (\<lambda>m. m \<in> set al \<and> m \<in> set fo) Intent_by_value = []"
  shows "set al \<inter> set fo = {}"
proof -
  have "m \<notin> set al \<or> m \<notin> set fo" for m
    using assms by (cases m) (auto simp: Intent_by_value_def split: if_split_asm)
  then show ?thesis
    by auto
qed

text \<open>
  Claim C1: on every raw record that \<open>validate_conceptcard\<close> accepts, the forbidden
  intents of the returned card contain \<open>personal_advice\<close> and \<open>product_recommendation\<close>,
  and no intent is both allowed and forbidden.
\<close>

theorem validated_card_safety:
  "validate_conceptcard raw = Inr crd \<Longrightarrow>
   PERSONAL_ADVICE \<in> set (forbidden_intents crd)
   \<and> PRODUCT_RECOMMENDATION \<in> set (forbidden_intents crd)
   \<and> set (allowed_intents crd) \<inter> set (forbidden_intents crd) = {}"
  unfolding validate_conceptcard_Inr_iff
  using require_safety_Inr forbidden_superset allowed_forbidden_disjoint
  by fastforce

theorem validated_card_safety_witness:
  "validate_conceptcard (PDict (sample_fields ''apr'' [''no advice'']))
     = Inr (sample_card ''apr'' [''no advice''])
   \<and> PERSONAL_ADVICE \<in> set (forbidden_intents (sample_card ''apr'' [''no advice'']))
   \<and> PRODUCT_RECOMMENDATION \<in> set (forbidden_intents (sample_card ''apr'' [''no advice'']))
   \<and> set (allowed_intents (sample_card ''apr'' [''no advice'']))
       \<inter> set (forbidden_intents (sample_card ''apr'' [''no advice''])) = {}"
  using sample_valid_apr validated_card_safety [OF sample_valid_apr]
  by simp

subsection \<open>Trimmed fields\<close>










subsection \<open>The corpus validator\<close>

lemma validate_all_loop_ok:
  "map validate_conceptcard raws = map Inr cs \<Longrightarrow> distinct (map id' cs) \<Longrightarrow>
   set (map id' cs) \<inter> seen = {} \<Longrightarrow>
   validate_all_loop raws acc seen = Inr (acc @ cs)"
proof (induction raws arbitrary: cs acc seen)
  case Nil
  then show ?case by simp
next
  case (Cons raw raws)
  then obtain c cs' where cs: "cs = c # cs'" and v: "validate_conceptcard raw = Inr c"
    and m: "map validate_conceptcard raws = map Inr cs'"
    by (cases cs) auto
  from Cons.prems cs have "id' c \<notin> seen" and "distinct (map id' cs')"
    and "set (map id' cs') \<inter> insert (id' c) seen = {}"
    by auto
  with Cons.IH [OF m, of "insert (id' c) seen" "acc @ [c]"] v cs show ?case
    by simp
qed

lemma validate_all_loop_duplicate:
  "map validate_conceptcard pre = map Inr cs \<Longrightarrow> distinct (map id' cs) \<Longrightarrow>
   set (map id' cs) \<inter> seen = {} \<Longrightarrow> validate_conceptcard r = Inr c \<Longrightarrow>
   id' c \<in> set (map id' cs) \<union> seen \<Longrightarrow>
   validate_all_loop (pre @ r # post) acc seen
     = Inl (ConceptValidationError (''Duplicate ConceptCard id detected: '' @ id' c))"
proof (induction pre arbitrary: cs acc seen)
  case Nil
  then show ?case by simp
next
  case (Cons raw raws)
  then obtain c' cs' where cs: "cs = c' # cs'" and v: "validate_conceptcard raw = Inr c'"
    and m: "map validate_conceptcard raws = map Inr cs'"
    by (cases cs) auto
  from Cons.prems cs have "id' c' \<notin> seen" and "distinct (map id' cs')"
    and "set (map id' cs') \<inter> insert (id' c') seen = {}"
    and "id' c \<in> set (map id' cs') \<union> insert (id' c') seen"
    by auto
  with Cons.IH [OF m, of "insert (id' c') seen" "acc @ [c']"] v cs Cons.prems(4) show ?case
    by simp
qed

lemma validate_all_loop_first_failure:
  "map validate_conceptcard pre = map Inr cs \<Longrightarrow> distinct (map id' cs) \<Longrightarrow>
   set (map id' cs) \<inter> seen = {} \<Longrightarrow> validate_conceptcard r = Inl e \<Longrightarrow>
   validate_all_loop (pre @ r # post) acc seen = Inl e"
proof (induction pre arbitrary: cs acc seen)
  case Nil
  then show ?case by simp
next
  case (Cons raw raws)
  then obtain c' cs' where cs: "cs = c' # cs'" and v: "validate_conceptcard raw = Inr c'"
    and m: "map validate_conceptcard raws = map Inr cs'"
    by (cases cs) auto
  from Cons.prems cs have "id' c' \<notin> seen" and "distinct (map id' cs')"
    and "set (map id' cs') \<inter> insert (id' c') seen = {}"
    by auto
  with Cons.IH [OF m, of "insert (id' c') seen" "acc @ [c']"] v cs Cons.prems(4) show ?case
    by simp
qed

lemma validate_all_loop_aborts:
  "r \<in> set raws \<Longrightarrow> validate_conceptcard r = Inl e \<Longrightarrow>
   isl (validate_all_loop raws acc seen)"
proof (induction raws arbitrary: acc seen)
  case Nil
  then show ?case by simp
next
  case (Cons raw raws)
  show ?case
  proof (cases "validate_conceptcard raw")
    case (Inl e')
    then show ?thesis by simp
  next
    case (Inr c)
    with Cons.prems have "r \<in> set raws"
      by auto
    with Cons.IH Cons.prems(2) Inr show ?thesis
      by simp
  qed
qed

text \<open>
  Claim C6: \<open>validate_all_conceptcards\<close> returns the validated cards in input order
  when every record is valid and all ids are distinct; it raises the duplicate-id error
  at the first record whose validated id is the id of an earlier validated record; and
  the validation failure of any record makes the whole call fail (the result is an
  error, never a partial list), with the error of that record when it is the first
  event of the batch.
\<close>

theorem validate_all_conceptcards_batch:
  "(map validate_conceptcard raws = map Inr cs \<and> distinct (map id' cs)
      \<longrightarrow> validate_all_conceptcards raws = Inr cs)
   \<and> (map validate_conceptcard pre = map Inr cs \<and> distinct (map id' cs)
      \<and> validate_conceptcard r = Inr c \<and> id' c \<in> set (map id' cs)
      \<longrightarrow> validate_all_conceptcards (pre @ r # post)
          = Inl (ConceptValidationError (''Duplicate ConceptCard id detected: '' @ id' c)))
   \<and> (map validate_conceptcard pre = map Inr cs \<and> distinct (map id' cs)
      \<and> validate_conceptcard r = Inl e
      \<longrightarrow> validate_all_conceptcards (pre @ r # post) = Inl e)
   \<and> (r \<in> set raws \<and> validate_conceptcard r = Inl e
      \<longrightarrow> isl (validate_all_conceptcards raws))"
  unfolding validate_all_conceptcards_def
  using validate_all_loop_ok [of raws cs "{}" "[]"]
    validate_all_loop_duplicate [of pre cs "{}" r c post "[]"]
    validate_all_loop_first_failure [of pre cs "{}" r e post "[]"]
    validate_all_loop_aborts [of r raws e "[]" "{}"]
  by simp

theorem validate_all_conceptcards_batch_witness:
  "validate_all_conceptcards
     [PDict (sample_fields ''apr'' [''no advice'']),
      PDict (sample_fields '' credit_score'' [''Not personal''])]
     = Inr [sample_card ''apr'' [''no advice''], sample_card ''credit_score'' [''Not personal'']]
   \<and> validate_all_conceptcards
     ([PDict (sample_fields ''apr'' [''no advice'']),
       PDict (sample_fields '' credit_score'' [''Not personal''])]
      @ PDict (sample_fields ''apr'' [''no advice''])
      # [PDict (sample_fields '' credit_score'' [''Not personal''])])
     = Inl (ConceptValidationError ''Duplicate ConceptCard id detected: apr'')
   \<and> validate_all_conceptcards
     ([PDict (sample_fields ''apr'' [''no advice''])] @ PDict []
      # [PDict (sample_fields '' credit_score'' [''Not personal''])])
     = Inl (ConceptValidationError ''[ConceptCard id=<missing-id>] id: missing required field'')
   \<and> isl (validate_all_conceptcards
     [PDict (sample_fields ''apr'' [''no advice'']), PDict []])"
proof -
  let ?A = "PDict (sample_fields ''apr'' [''no advice''])"
  let ?B = "PDict (sample_fields '' credit_score'' [''Not personal''])"
  let ?a = "sample_card ''apr'' [''no advice'']"
  let ?b = "sample_card ''credit_score'' [''Not personal'']"
  let ?e = "ConceptValidationError ''[ConceptCard id=<missing-id>] id: missing required field''"
  have m2: "map validate_conceptcard [?A, ?B] = map Inr [?a, ?b]"
    using sample_valid_apr sample_valid_credit by simp
  have m1: "map validate_conceptcard [?A] = map Inr [?a]"
    using sample_valid_apr by simp
  have d2: "distinct (map id' [?a, ?b])" and d1: "distinct (map id' [?a])"
    and i: "id' ?a \<in> set (map id' [?a, ?b])" and ia: "id' ?a = ''apr''"
    by (simp_all add: sample_card_def)
  have "validate_all_conceptcards [?A, ?B] = Inr [?a, ?b]"
    using validate_all_conceptcards_batch [of "[?A, ?B]" "[?a, ?b]"] m2 d2 by blast
  moreover have "validate_all_conceptcards ([?A, ?B] @ ?A # [?B])
      = Inl (ConceptValidationError (''Duplicate ConceptCard id detected: '' @ id' ?a))"
    using validate_all_conceptcards_batch [of _ "[?a, ?b]" "[?A, ?B]" ?A ?a "[?B]"]
      m2 d2 i sample_valid_apr by blast
  moreover have "validate_all_conceptcards ([?A] @ PDict [] # [?B]) = Inl ?e"
    using validate_all_conceptcards_batch [of _ "[?a]" "[?A]" "PDict []" _ "[?B]" ?e]
      m1 d1 sample_invalid_empty by blast
  moreover have "isl (validate_all_conceptcards [?A, PDict []])"
    using validate_all_conceptcards_batch [of "[?A, PDict []]" _ _ "PDict []" _ _ ?e]
      sample_invalid_empty by simp
  ultimately show ?thesis
    using ia by simp
qed

subsection \<open>The checks, one by one\<close>

lemma not_nonempty_str_iff: "\<not> not_nonempty_str v \<longleftrightarrow> is_str v \<and> strip (the_str v) \<noteq> []"
  by (simp add: not_nonempty_str_def)

lemma PLACEHOLDER_RE_solid: "solid PLACEHOLDER_RE"
  by code_simp

lemma has_placeholder_strip [simp]: "has_placeholder (strip s) = has_placeholder s"
  unfolding has_placeholder_def
  using re_search_strip re_search_strip_solid [OF PLACEHOLDER_RE_solid] by blast

lemma require_key_Inr_iff: "require_key raw card_id key = Inr v \<longleftrightarrow> map_of raw key = Some v"
  by (simp add: require_key_def split: option.split)

lemma dict_get_Some: "map_of d key = Some v \<Longrightarrow> dict_get d key = v"
  by (simp add: dict_get_def)

lemma require_str_Inr_iff:
  "require_str raw card_id key = Inr s \<longleftrightarrow>
   (\<exists>v. map_of raw key = Some v \<and> \<not> not_nonempty_str v \<and> \<not> has_placeholder (the_str v)
        \<and> s = strip (the_str v))"
  by (auto simp: require_str_def and_then_Inr_iff require_key_Inr_iff)

lemma list_of_str_loop_Inr_iff:
  "list_of_str_loop card_id key i items = Inr out \<longleftrightarrow>
   list_all (\<lambda>v. \<not> not_nonempty_str v \<and> \<not> has_placeholder (the_str v)) items
   \<and> out = map (\<lambda>v. strip (the_str v)) items"
  by (induction items arbitrary: i out) (auto simp: and_then_Inr_iff)

lemma require_list_of_str_Inr_iff:
  "require_list_of_str raw card_id key n = Inr out \<longleftrightarrow>
   (\<exists>v. map_of raw key = Some v \<and> is_list v
        \<and> list_all (\<lambda>v. \<not> not_nonempty_str v \<and> \<not> has_placeholder (the_str v)) (the_list v)
        \<and> out = map (\<lambda>v. strip (the_str v)) (the_list v) \<and> n \<le> length out)"
  by (rule iffI)
     (auto simp: require_list_of_str_def and_then_Inr_iff require_key_Inr_iff
        list_of_str_loop_Inr_iff split: if_split_asm cong: conj_cong)

lemma to_enum_Inr_iff:
  "to_enum card_id field members value_of v = Inr e \<longleftrightarrow>
   find (\<lambda>e. value_of e = v) members = Some e"
  by (simp add: to_enum_def split: option.split)

lemma require_enum_Inr_iff:
  "require_enum raw card_id key members value_of = Inr e \<longleftrightarrow>
   (\<exists>s. require_str raw card_id key = Inr s \<and> find (\<lambda>e. value_of e = s) members = Some e)"
  by (simp add: require_enum_def and_then_Inr_iff to_enum_Inr_iff)

lemma examples_loop_Inr_iff:
  "examples_loop card_id i items = Inr out \<longleftrightarrow>
   list_all example_ok items
   \<and> out = map (\<lambda>ex. \<lparr>scenario = strip (the_str (dict_get (the_dict ex) ''scenario'')),
                       explanation = strip (the_str (dict_get (the_dict ex) ''explanation''))\<rparr>)
              items"
  by (induction items arbitrary: i out) (auto simp: and_then_Inr_iff Let_def example_ok_def)

lemma require_examples_Inr_iff:
  "require_examples raw card_id = Inr out \<longleftrightarrow>
   (\<exists>v. map_of raw ''examples'' = Some v \<and> is_list v \<and> list_all example_ok (the_list v)
        \<and> out = map (\<lambda>ex. \<lparr>scenario = strip (the_str (dict_get (the_dict ex) ''scenario'')),
                             explanation = strip (the_str (dict_get (the_dict ex) ''explanation''))\<rparr>)
                  (the_list v))"
  by (auto simp: require_examples_def and_then_Inr_iff require_key_Inr_iff examples_loop_Inr_iff)

lemma intents_loop_Inr_iff:
  "intents_loop card_id field i items = Inr out \<longleftrightarrow>
   list_all2 (\<lambda>v e. strip (the_str v) \<noteq> [] \<and> \<not> has_placeholder (the_str v)
                \<and> find (\<lambda>e. Intent_value e = strip (the_str v)) Intent_members = Some e)
     items out"
  by (induction items arbitrary: i out)
     (auto simp: and_then_Inr_iff Let_def to_enum_Inr_iff list_all2_Cons1)

lemma require_safety_Inr_iff:
  "require_safety raw card_id = Inr (al, fo) \<longleftrightarrow>
   (\<exists>v. map_of raw ''safety'' = Some v \<and> is_dict v
        \<and> is_list_of_str (dict_get (the_dict v) ''allowed_intents'')
        \<and> is_list_of_str (dict_get (the_dict v) ''forbidden_intents'')
        \<and> intents_loop card_id ''safety.allowed_intents'' 0
             (the_list (dict_get (the_dict v) ''allowed_intents'')) = Inr al
        \<and> intents_loop card_id ''safety.forbidden_intents'' 0
             (the_list (dict_get (the_dict v) ''forbidden_intents'')) = Inr fo
        \<and> filter (\<lambda>m. m \<in> set must_forbid \<and> m \<notin> set fo) Intent_by_value = []
        \<and> filter (\<lambda>m. m \<in> set al \<and> m \<in> set fo) Intent_by_value = [])"
  by (auto simp: require_safety_def and_then_Inr_iff require_key_Inr_iff Let_def)

lemma sources_loop_Inr_iff:
  "sources_loop card_id i items = Inr out \<longleftrightarrow>
   list_all (\<lambda>v. \<not> not_nonempty_str v \<and> \<not> has_placeholder (the_str v)) items
   \<and> out = map (\<lambda>v. strip (the_str v)) items"
  by (induction items arbitrary: i out) (auto simp: and_then_Inr_iff)

lemma require_metadata_Inr_iff:
  "require_metadata raw card_id = Inr (so, lu) \<longleftrightarrow>
   (\<exists>v. map_of raw ''metadata'' = Some v \<and> is_dict v
        \<and> is_list (dict_get (the_dict v) ''sources'')
        \<and> the_list (dict_get (the_dict v) ''sources'') \<noteq> []
        \<and> list_all (\<lambda>v. \<not> not_nonempty_str v \<and> \<not> has_placeholder (the_str v))
             (the_list (dict_get (the_dict v) ''sources''))
        \<and> so = map (\<lambda>v. strip (the_str v)) (the_list (dict_get (the_dict v) ''sources''))
        \<and> \<not> not_nonempty_str (dict_get (the_dict v) ''last_updated'')
        \<and> \<not> has_placeholder (the_str (dict_get (the_dict v) ''last_updated''))
        \<and> lu = strip (the_str (dict_get (the_dict v) ''last_updated''))
        \<and> re_fullmatch False DATE_RE lu)"
  by (auto simp: require_metadata_def and_then_Inr_iff require_key_Inr_iff Let_def
      sources_loop_Inr_iff)

lemma second_person_loop_Inr_iff:
  "second_person_loop card_id i items = Inr u \<longleftrightarrow>
   list_all (\<lambda>v. \<not> (is_str v \<and> re_search True SECOND_PERSON_RE (the_str v))) items"
  by (induction items arbitrary: i) auto

lemma placeholder_sweep_Inr_iff:
  "placeholder_sweep card_id raw = Inr u \<longleftrightarrow>
   list_all (\<lambda>v. \<not> (is_str v \<and> has_placeholder (the_str v))) (map snd raw)"
  by (induction raw) (auto split: if_split_asm)

lemma education_only_heuristics_Inr_iff:
  "education_only_heuristics card_id raw = Inr u \<longleftrightarrow>
   (is_list (case map_of raw ''summary'' of None \<Rightarrow> PList [] | Some v \<Rightarrow> v) \<longrightarrow>
      list_all (\<lambda>v. \<not> (is_str v \<and> re_search True SECOND_PERSON_RE (the_str v)))
        (the_list (case map_of raw ''summary'' of None \<Rightarrow> PList [] | Some v \<Rightarrow> v)))
   \<and> (is_list (dict_get raw ''non_goals'') \<longrightarrow>
        blocks_advice (non_goals_joined (the_list (dict_get raw ''non_goals''))))
   \<and> list_all (\<lambda>v. \<not> (is_str v \<and> has_placeholder (the_str v))) (map snd raw)"
  by (auto simp: education_only_heuristics_def and_then_Inr_iff Let_def
      second_person_loop_Inr_iff placeholder_sweep_Inr_iff)

subsection \<open>Placeholders\<close>

lemma str_items_checked:
  "list_all (\<lambda>v. \<not> not_nonempty_str v \<and> \<not> has_placeholder (the_str v)) (the_list v) \<Longrightarrow>
   list_all (\<lambda>s. \<not> has_placeholder s) (str_items v)"
  by (auto simp: str_items_def list_all_iff)

lemma intents_checked:
  "intents_loop card_id field i (the_list v) = Inr out \<Longrightarrow>
   list_all (\<lambda>s. \<not> has_placeholder s) (str_items v)"
  unfolding intents_loop_Inr_iff
  by (auto simp: str_items_def list_all_iff list_all2_conv_all_nth in_set_conv_nth)

lemma sample_nested_valid:
  "validate_conceptcard
     (PDict (sample_fields ''apr'' [''no advice''] @ [(''notes'', PList [PStr ''<todo>''])]))
   = Inr (sample_card ''apr'' [''no advice''])"
  by code_simp

text \<open>
  Claim C4, as stated, fails: a record with a placeholder in a list under a key the
  schema does not enumerate is accepted.
\<close>

theorem nested_placeholder_accepted:
  "validate_conceptcard
     (PDict (sample_fields ''apr'' [''no advice''] @ [(''notes'', PList [PStr ''<todo>''])]))
   = Inr (sample_card ''apr'' [''no advice''])
   \<and> list_ex has_placeholder
       (strings_of
         (PDict (sample_fields ''apr'' [''no advice''] @ [(''notes'', PList [PStr ''<todo>''])])))"
proof -
  have "list_ex has_placeholder
       (strings_of
         (PDict (sample_fields ''apr'' [''no advice''] @ [(''notes'', PList [PStr ''<todo>''])])))"
    by code_simp
  with sample_nested_valid show ?thesis
    by simp
qed

text \<open>
  Claim C4, amended: on every raw record that \<open>validate_conceptcard\<close> accepts, no
  top-level string value of the record (under a key of the schema or any other key)
  and no string the schema enumerates (the elements of the four list fields, the
  scenario and explanation of each example, the entries of the two intent lists, the
  sources and the date) contains placeholder markup.
\<close>

theorem validated_record_placeholder_free:
  "validate_conceptcard (PDict raw) = Inr crd \<Longrightarrow>
   list_all (\<lambda>s. \<not> has_placeholder s) (checked_strings raw)"
proof -
  assume "validate_conceptcard (PDict raw) = Inr crd"
  then obtain su co mi ng ex al fo so lu where
    su: "require_list_of_str raw (card_id_for_errors raw) ''summary'' 1 = Inr su"
    and co: "require_list_of_str raw (card_id_for_errors raw) ''core_mechanics'' 1 = Inr co"
    and mi: "require_list_of_str raw (card_id_for_errors raw) ''misconceptions'' 1 = Inr mi"
    and ng: "require_list_of_str raw (card_id_for_errors raw) ''non_goals'' 1 = Inr ng"
    and ex: "require_examples raw (card_id_for_errors raw) = Inr ex"
    and sa: "require_safety raw (card_id_for_errors raw) = Inr (al, fo)"
    and me: "require_metadata raw (card_id_for_errors raw) = Inr (so, lu)"
    and he: "education_only_heuristics (card_id_for_errors raw) raw = Inr ()"
    unfolding validate_conceptcard_Inr_iff by auto
  have top: "list_all (\<lambda>s. \<not> has_placeholder s) (map the_str (filter is_str (map snd raw)))"
    using he unfolding education_only_heuristics_Inr_iff by (auto simp: list_all_iff)
  have lists: "list_all (\<lambda>s. \<not> has_placeholder s) (str_items (dict_get raw key))"
    if "require_list_of_str raw (card_id_for_errors raw) key 1 = Inr out" for key out
    using that unfolding require_list_of_str_Inr_iff
    by (auto simp: dict_get_Some intro: str_items_checked)
  have exs: "list_all (\<lambda>s. \<not> has_placeholder s)
      (concat (map (\<lambda>ex. [the_str (dict_get (the_dict ex) ''scenario''),
                           the_str (dict_get (the_dict ex) ''explanation'')])
                (the_list (dict_get raw ''examples''))))"
    using ex unfolding require_examples_Inr_iff
    by (auto simp: dict_get_Some list_all_iff example_ok_def)
  have saf: "list_all (\<lambda>s. \<not> has_placeholder s)
        (str_items (dict_get (the_dict (dict_get raw ''safety'')) ''allowed_intents''))"
    "list_all (\<lambda>s. \<not> has_placeholder s)
        (str_items (dict_get (the_dict (dict_get raw ''safety'')) ''forbidden_intents''))"
    using sa unfolding require_safety_Inr_iff
    by (auto simp: dict_get_Some intro: intents_checked)
  have met: "list_all (\<lambda>s. \<not> has_placeholder s)
        (str_items (dict_get (the_dict (dict_get raw ''metadata'')) ''sources''))"
    "\<not> has_placeholder (the_str (dict_get (the_dict (dict_get raw ''metadata'')) ''last_updated''))"
    using me unfolding require_metadata_Inr_iff
    by (auto simp: dict_get_Some intro: str_items_checked)
  from top lists [OF su] lists [OF co] lists [OF mi] lists [OF ng] exs saf met show ?thesis
    unfolding checked_strings_def by simp
qed

theorem validated_record_placeholder_free_witness:
  "validate_conceptcard (PDict (sample_fields ''apr'' [''no advice'']))
     = Inr (sample_card ''apr'' [''no advice''])
   \<and> list_all (\<lambda>s. \<not> has_placeholder s) (checked_strings (sample_fields ''apr'' [''no advice'']))"
  using sample_valid_apr validated_record_placeholder_free [OF sample_valid_apr]
  by simp

subsection \<open>The keyword guard on the non-goals\<close>

lemma non_goals_terms_solid:
  "list_all (\<lambda>t. t \<noteq> [] \<and> list_all (\<lambda>c. \<not> isspace c) t) non_goals_terms"
  by code_simp

lemma blocking_term_in_item:
  assumes "blocks_advice (lower (join '' '' xs))"
  shows "\<exists>t \<in> set non_goals_terms. \<exists>x \<in> set xs. sublist t (lower (strip x))"
proof -
  from assms obtain t where t: "t \<in> set non_goals_terms" "sublist t (lower (join '' '' xs))"
    by (auto simp: blocks_advice_def list_ex_iff str_in_sublist)
  with non_goals_terms_solid have ne: "t \<noteq> []" and ns: "\<forall>c \<in> set t. \<not> isspace c"
    by (auto simp: list_all_iff)
  then have "CHR '' '' \<notin> set t"
    by (auto simp: isspace_def)
  moreover from t(2) have "sublist t (join [CHR '' ''] (map lower xs))"
    by (simp add: lower_join lower_space)
  ultimately obtain x where x: "x \<in> set xs" "sublist t (lower x)"
    using sublist_join [OF ne] by fastforce
  obtain pre post where d: "x = pre @ strip x @ post"
    "\<forall>c \<in> set pre. isspace c" "\<forall>c \<in> set post. isspace c"
    using strip_decomp by blast
  from d(1) have "lower x = lower pre @ lower (strip x) @ lower post"
    by (metis lower_append)
  with x(2) have "sublist t (lower pre @ lower (strip x) @ lower post)"
    by simp
  then have "sublist t (lower (strip x) @ lower post)"
    using ne ns lower_isspace [OF d(2)]
    by (intro sublist_skip_left [of t isspace "lower pre" "lower (strip x) @ lower post"])
      (auto simp: hd_in_set)
  then have "sublist t (lower (strip x))"
    using ne ns lower_isspace [OF d(3)]
    by (intro sublist_skip_right [of t isspace "lower post" "lower (strip x)"])
      (auto simp: last_in_set)
  with t(1) x(1) show ?thesis
    by blast
qed

lemma blocks_advice_strip:
  assumes "blocks_advice (lower (join '' '' xs))"
  shows "blocks_advice (lower (join '' '' (map strip xs)))"
proof -
  obtain t x where "t \<in> set non_goals_terms" "x \<in> set xs" "sublist t (lower (strip x))"
    using blocking_term_in_item [OF assms] by blast
  then have "sublist t (join (lower '' '') (map lower (map strip xs)))"
    by (intro sublist_join_mem [of "lower (strip x)"]) auto
  with \<open>t \<in> set non_goals_terms\<close> show ?thesis
    unfolding blocks_advice_def list_ex_iff str_in_sublist lower_join by blast
qed


lemma non_goals_joined_strs:
  "list_all is_str items \<Longrightarrow> non_goals_joined items = lower (join '' '' (map the_str items))"
  by (simp add: non_goals_joined_def list_all_iff)

lemma validated_non_goals:
  assumes "validate_conceptcard (PDict raw) = Inr crd"
  shows "is_list (dict_get raw ''non_goals'')"
    and "list_all is_str (the_list (dict_get raw ''non_goals''))"
    and "blocks_advice (non_goals_joined (the_list (dict_get raw ''non_goals'')))"
    and "non_goals crd = map (\<lambda>v. strip (the_str v)) (the_list (dict_get raw ''non_goals''))"
proof -
  from assms obtain ng where
    ng: "require_list_of_str raw (card_id_for_errors raw) ''non_goals'' 1 = Inr ng"
    and he: "education_only_heuristics (card_id_for_errors raw) raw = Inr ()"
    and c: "non_goals crd = ng"
    unfolding validate_conceptcard_Inr_iff by auto
  from ng obtain v where v: "map_of raw ''non_goals'' = Some v" "is_list v"
    "list_all (\<lambda>v. \<not> not_nonempty_str v \<and> \<not> has_placeholder (the_str v)) (the_list v)"
    "ng = map (\<lambda>v. strip (the_str v)) (the_list v)"
    unfolding require_list_of_str_Inr_iff by blast
  then have g: "dict_get raw ''non_goals'' = v"
    by (simp add: dict_get_Some)
  with v show "is_list (dict_get raw ''non_goals'')"
    and "list_all is_str (the_list (dict_get raw ''non_goals''))"
    by (auto simp: list_all_iff not_nonempty_str_iff)
  from he g v(2) show "blocks_advice (non_goals_joined (the_list (dict_get raw ''non_goals'')))"
    unfolding education_only_heuristics_Inr_iff by simp
  from c v(4) g show "non_goals crd
      = map (\<lambda>v. strip (the_str v)) (the_list (dict_get raw ''non_goals''))"
    by simp
qed


lemma and_then_raise [simp]: "and_then (raise card_id field msg) f = raise card_id field msg"
  by (simp add: raise_def)










subsection \<open>Validating a serialized card\<close>

lemma clean_strip:
  "\<not> not_nonempty_str v \<Longrightarrow> \<not> has_placeholder (the_str v) \<Longrightarrow> clean (strip (the_str v))"
  by (simp add: clean_def not_nonempty_str_iff)

lemma clean_checked:
  "clean s \<Longrightarrow> \<not> not_nonempty_str (PStr s) \<and> \<not> has_placeholder s \<and> strip s = s \<and> s \<noteq> []"
  by (simp add: clean_def not_nonempty_str_iff)

lemma clean_list_strip:
  "list_all (\<lambda>v. \<not> not_nonempty_str v \<and> \<not> has_placeholder (the_str v)) vs \<Longrightarrow>
   list_all clean (map (\<lambda>v. strip (the_str v)) vs)"
  by (induction vs) (simp_all add: clean_strip)

lemma clean_list_checked:
  "list_all clean xs \<Longrightarrow>
   list_all (\<lambda>v. \<not> not_nonempty_str v \<and> \<not> has_placeholder (the_str v)) (map PStr xs)
   \<and> map (\<lambda>v. strip (the_str v)) (map PStr xs) = xs"
  by (induction xs) (simp_all add: clean_checked)

lemma Category_value_clean: "clean (Category_value ca)"
  by (cases ca; hypsubst; code_simp)

lemma Difficulty_value_clean: "clean (Difficulty_value di)"
  by (cases di; hypsubst; code_simp)

lemma Intent_value_clean: "clean (Intent_value e)"
  by (cases e; hypsubst; code_simp)

lemma Category_find:
  "find (\<lambda>e. Category_value e = Category_value ca) Category_members = Some ca"
  by (cases ca; hypsubst; code_simp)

lemma Difficulty_find:
  "find (\<lambda>e. Difficulty_value e = Difficulty_value di) Difficulty_members = Some di"
  by (cases di; hypsubst; code_simp)

lemma Intent_find:
  "find (\<lambda>e'. Intent_value e' = Intent_value e) Intent_members = Some e"
  by (cases e; hypsubst; code_simp)

lemma require_str_clean:
  "map_of raw key = Some (PStr s) \<Longrightarrow> clean s \<Longrightarrow> require_str raw card_id key = Inr s"
  unfolding require_str_Inr_iff by (simp add: clean_checked)

lemma require_str_Inr_clean: "require_str raw card_id key = Inr s \<Longrightarrow> clean s"
  unfolding require_str_Inr_iff by (auto simp: clean_strip)

lemma require_list_of_str_clean:
  "map_of raw key = Some (PList (map PStr xs)) \<Longrightarrow> list_all clean xs \<Longrightarrow> n \<le> length xs \<Longrightarrow>
   require_list_of_str raw card_id key n = Inr xs"
  unfolding require_list_of_str_Inr_iff using clean_list_checked [of xs] by simp

lemma require_list_of_str_Inr_clean:
  "require_list_of_str raw card_id key n = Inr xs \<Longrightarrow> list_all clean xs \<and> n \<le> length xs"
  unfolding require_list_of_str_Inr_iff using clean_list_strip by auto

lemma require_enum_clean:
  "map_of raw key = Some (PStr (value_of e)) \<Longrightarrow> clean (value_of e) \<Longrightarrow>
   find (\<lambda>e'. value_of e' = value_of e) members = Some e \<Longrightarrow>
   require_enum raw card_id key members value_of = Inr e"
  unfolding require_enum_Inr_iff using require_str_clean by blast

lemma examples_serialized:
  "list_all (\<lambda>e. clean (scenario e) \<and> clean (explanation e)) exs \<Longrightarrow>
   list_all example_ok
     (map (\<lambda>e. PDict [(''scenario'', PStr (scenario e)), (''explanation'', PStr (explanation e))]) exs)
   \<and> map (\<lambda>ex. \<lparr>scenario = strip (the_str (dict_get (the_dict ex) ''scenario'')),
                  explanation = strip (the_str (dict_get (the_dict ex) ''explanation''))\<rparr>)
       (map (\<lambda>e. PDict [(''scenario'', PStr (scenario e)), (''explanation'', PStr (explanation e))]) exs)
     = exs"
  by (induction exs) (simp_all add: example_ok_def dict_get_def clean_checked)

lemma require_examples_clean:
  assumes "map_of raw ''examples''
           = Some (PList (map (\<lambda>e. PDict [(''scenario'', PStr (scenario e)),
                                          (''explanation'', PStr (explanation e))]) exs))"
    and "list_all (\<lambda>e. clean (scenario e) \<and> clean (explanation e)) exs"
  shows "require_examples raw card_id = Inr exs"
  unfolding require_examples_Inr_iff using assms(1) examples_serialized [OF assms(2)] by simp

lemma require_examples_Inr_clean:
  assumes "require_examples raw card_id = Inr exs"
  shows "list_all (\<lambda>e. clean (scenario e) \<and> clean (explanation e)) exs"
proof -
  from assms obtain v where "list_all example_ok (the_list v)"
    and "exs = map (\<lambda>ex. \<lparr>scenario = strip (the_str (dict_get (the_dict ex) ''scenario'')),
                           explanation = strip (the_str (dict_get (the_dict ex) ''explanation''))\<rparr>)
                (the_list v)"
    unfolding require_examples_Inr_iff by blast
  then show ?thesis
    by (simp add: list_all_iff example_ok_def clean_strip)
qed

lemma intents_loop_serialized:
  "intents_loop card_id field i (map (\<lambda>e. PStr (Intent_value e)) es) = Inr es"
  using Intent_value_clean Intent_find
  by (induction es arbitrary: i) (simp_all add: Let_def to_enum_def clean_def)

lemma require_safety_clean:
  assumes "map_of raw ''safety''
           = Some (PDict [(''allowed_intents'', PList (map (\<lambda>i. PStr (Intent_value i)) al)),
                          (''forbidden_intents'', PList (map (\<lambda>i. PStr (Intent_value i)) fo))])"
    and "filter (\<lambda>m. m \<in> set must_forbid \<and> m \<notin> set fo) Intent_by_value = []"
    and "filter (\<lambda>m. m \<in> set al \<and> m \<in> set fo) Intent_by_value = []"
  shows "require_safety raw card_id = Inr (al, fo)"
  unfolding require_safety_Inr_iff using assms
  by (simp add: dict_get_def is_list_of_str_def intents_loop_serialized list_all_iff)

lemma require_metadata_clean:
  assumes "map_of raw ''metadata''
           = Some (PDict [(''sources'', PList (map PStr so)), (''last_updated'', PStr lu)])"
    and "so \<noteq> []" and "list_all clean so" and "clean lu" and "re_fullmatch False DATE_RE lu"
  shows "require_metadata raw card_id = Inr (so, lu)"
  unfolding require_metadata_Inr_iff
  using assms clean_list_checked [OF assms(3)] clean_checked [OF assms(4)]
  by (simp add: dict_get_def)

lemma require_metadata_Inr_clean:
  assumes "require_metadata raw card_id = Inr (so, lu)"
  shows "so \<noteq> []" and "list_all clean so" and "clean lu" and "re_fullmatch False DATE_RE lu"
proof -
  from assms obtain v where v: "the_list (dict_get (the_dict v) ''sources'') \<noteq> []"
    "list_all (\<lambda>v. \<not> not_nonempty_str v \<and> \<not> has_placeholder (the_str v))
       (the_list (dict_get (the_dict v) ''sources''))"
    "so = map (\<lambda>v. strip (the_str v)) (the_list (dict_get (the_dict v) ''sources''))"
    "\<not> not_nonempty_str (dict_get (the_dict v) ''last_updated'')"
    "\<not> has_placeholder (the_str (dict_get (the_dict v) ''last_updated''))"
    "lu = strip (the_str (dict_get (the_dict v) ''last_updated''))"
    "re_fullmatch False DATE_RE lu"
    unfolding require_metadata_Inr_iff by blast
  from v(1,3) show "so \<noteq> []" by simp
  from v(2,3) show "list_all clean so" by (simp add: clean_list_strip)
  from v(4-6) show "clean lu" by (simp add: clean_strip)
  from v(7) show "re_fullmatch False DATE_RE lu" .
qed

lemma non_goals_joined_PStr: "non_goals_joined (map PStr xs) = lower (join '' '' xs)"
proof -
  have "map the_str (filter is_str (map PStr xs)) = xs"
    by (induction xs) simp_all
  then show ?thesis
    by (simp add: non_goals_joined_def)
qed

lemma serialize_fields_keys:
  "map_of (serialize_fields c) ''id'' = Some (PStr (id' c))"
  "map_of (serialize_fields c) ''title'' = Some (PStr (title c))"
  "map_of (serialize_fields c) ''category'' = Some (PStr (Category_value (category c)))"
  "map_of (serialize_fields c) ''difficulty'' = Some (PStr (Difficulty_value (difficulty c)))"
  "map_of (serialize_fields c) ''summary'' = Some (PList (map PStr (summary c)))"
  "map_of (serialize_fields c) ''core_mechanics'' = Some (PList (map PStr (core_mechanics c)))"
  "map_of (serialize_fields c) ''misconceptions'' = Some (PList (map PStr (misconceptions c)))"
  "map_of (serialize_fields c) ''non_goals'' = Some (PList (map PStr (non_goals c)))"
  "map_of (serialize_fields c) ''examples''
   = Some (PList (map (\<lambda>e. PDict [(''scenario'', PStr (scenario e)),
                                  (''explanation'', PStr (explanation e))]) (examples c)))"
  "map_of (serialize_fields c) ''safety''
   = Some (PDict [(''allowed_intents'', PList (map (\<lambda>i. PStr (Intent_value i)) (allowed_intents c))),
                  (''forbidden_intents'',
                   PList (map (\<lambda>i. PStr (Intent_value i)) (forbidden_intents c)))])"
  "map_of (serialize_fields c) ''metadata''
   = Some (PDict [(''sources'', PList (map PStr (sources c))),
                  (''last_updated'', PStr (last_updated c))])"
  by (simp_all add: serialize_fields_def)

lemma heuristics_serialized:
  assumes "clean (id' c)" and "clean (title c)"
    and "list_all (\<lambda>s. \<not> re_search True SECOND_PERSON_RE s) (summary c)"
    and "blocks_advice (lower (join '' '' (non_goals c)))"
  shows "education_only_heuristics card_id (serialize_fields c) = Inr ()"
proof -
  have "list_all (\<lambda>v. \<not> (is_str v \<and> has_placeholder (the_str v))) (map snd (serialize_fields c))"
    using assms(1,2) Category_value_clean [of "category c"]
      Difficulty_value_clean [of "difficulty c"]
    by (simp add: serialize_fields_def clean_def)
  moreover have "list_all (\<lambda>v. \<not> (is_str v \<and> re_search True SECOND_PERSON_RE (the_str v)))
      (map PStr (summary c))"
    using assms(3) by (simp add: list_all_iff)
  ultimately show ?thesis
    unfolding education_only_heuristics_Inr_iff
    using assms(4)
    by (simp add: serialize_fields_keys dict_get_def non_goals_joined_PStr)
qed

lemma serialized_validates:
  assumes "clean (id' c)" and "clean (title c)"
    and "list_all clean (summary c)" and "summary c \<noteq> []"
    and "list_all clean (core_mechanics c)" and "core_mechanics c \<noteq> []"
    and "list_all clean (misconceptions c)" and "misconceptions c \<noteq> []"
    and "list_all clean (non_goals c)" and "non_goals c \<noteq> []"
    and "list_all (\<lambda>e. clean (scenario e) \<and> clean (explanation e)) (examples c)"
    and "filter (\<lambda>m. m \<in> set must_forbid \<and> m \<notin> set (forbidden_intents c)) Intent_by_value = []"
    and "filter (\<lambda>m. m \<in> set (allowed_intents c) \<and> m \<in> set (forbidden_intents c)) Intent_by_value = []"
    and "sources c \<noteq> []" and "list_all clean (sources c)"
    and "clean (last_updated c)" and "re_fullmatch False DATE_RE (last_updated c)"
    and "list_all (\<lambda>s. \<not> re_search True SECOND_PERSON_RE s) (summary c)"
    and "blocks_advice (lower (join '' '' (non_goals c)))"
    and "re_fullmatch False SNAKE_RE (id' c)"
  shows "validate_conceptcard (serialize_conceptcard c) = Inr c"
proof -
  let ?raw = "serialize_fields c" and ?cid = "card_id_for_errors (serialize_fields c)"
  have len: "1 \<le> length (summary c)" "1 \<le> length (core_mechanics c)"
    "1 \<le> length (misconceptions c)" "1 \<le> length (non_goals c)"
    using assms(4,6,8,10) by (simp_all add: Suc_le_eq)
  have "require_str ?raw ?cid ''id'' = Inr (id' c)"
    and "require_str ?raw ?cid ''title'' = Inr (title c)"
    using assms(1,2) by (simp_all add: require_str_clean serialize_fields_keys)
  moreover have "require_enum ?raw ?cid ''category'' Category_members Category_value
      = Inr (category c)"
    by (simp add: require_enum_clean serialize_fields_keys Category_value_clean Category_find)
  moreover have "require_enum ?raw ?cid ''difficulty'' Difficulty_members Difficulty_value
      = Inr (difficulty c)"
    by (simp add: require_enum_clean serialize_fields_keys Difficulty_value_clean Difficulty_find)
  moreover have "require_list_of_str ?raw ?cid ''summary'' 1 = Inr (summary c)"
    and "require_list_of_str ?raw ?cid ''core_mechanics'' 1 = Inr (core_mechanics c)"
    and "require_list_of_str ?raw ?cid ''misconceptions'' 1 = Inr (misconceptions c)"
    and "require_list_of_str ?raw ?cid ''non_goals'' 1 = Inr (non_goals c)"
    using assms(3,5,7,9) len by (simp_all add: require_list_of_str_clean serialize_fields_keys)
  moreover have "require_examples ?raw ?cid = Inr (examples c)"
    using assms(11) by (simp add: require_examples_clean serialize_fields_keys)
  moreover have "require_safety ?raw ?cid = Inr (allowed_intents c, forbidden_intents c)"
    using assms(12,13) by (simp add: require_safety_clean serialize_fields_keys)
  moreover have "require_metadata ?raw ?cid = Inr (sources c, last_updated c)"
    using assms(14-17) by (simp add: require_metadata_clean serialize_fields_keys)
  moreover have "education_only_heuristics ?cid ?raw = Inr ()"
    using assms(1,2,18,19) by (rule heuristics_serialized)
  ultimately show ?thesis
    using assms(20)
    by (simp add: validate_conceptcard_def serialize_conceptcard_def)
qed

subsection \<open>The fields of a validated card\<close>

lemma validated_card_fields:
  assumes "validate_conceptcard raw0 = Inr c"
  shows "clean (id' c)" and "clean (title c)"
    and "list_all clean (summary c)" and "summary c \<noteq> []"
    and "list_all clean (core_mechanics c)" and "core_mechanics c \<noteq> []"
    and "list_all clean (misconceptions c)" and "misconceptions c \<noteq> []"
    and "list_all clean (non_goals c)" and "non_goals c \<noteq> []"
    and "list_all (\<lambda>e. clean (scenario e) \<and> clean (explanation e)) (examples c)"
    and "filter (\<lambda>m. m \<in> set must_forbid \<and> m \<notin> set (forbidden_intents c)) Intent_by_value = []"
    and "filter (\<lambda>m. m \<in> set (allowed_intents c) \<and> m \<in> set (forbidden_intents c)) Intent_by_value = []"
    and "sources c \<noteq> []" and "list_all clean (sources c)"
    and "clean (last_updated c)" and "re_fullmatch False DATE_RE (last_updated c)"
    and "re_fullmatch False SNAKE_RE (id' c)"
proof -
  from assms obtain raw where
    r: "require_str raw (card_id_for_errors raw) ''id'' = Inr (id' c)"
      "require_str raw (card_id_for_errors raw) ''title'' = Inr (title c)"
      "require_list_of_str raw (card_id_for_errors raw) ''summary'' 1 = Inr (summary c)"
      "require_list_of_str raw (card_id_for_errors raw) ''core_mechanics'' 1 = Inr (core_mechanics c)"
      "require_list_of_str raw (card_id_for_errors raw) ''misconceptions'' 1 = Inr (misconceptions c)"
      "require_list_of_str raw (card_id_for_errors raw) ''non_goals'' 1 = Inr (non_goals c)"
      "require_examples raw (card_id_for_errors raw) = Inr (examples c)"
      "require_safety raw (card_id_for_errors raw) = Inr (allowed_intents c, forbidden_intents c)"
      "require_metadata raw (card_id_for_errors raw) = Inr (sources c, last_updated c)"
      "re_fullmatch False SNAKE_RE (id' c)"
    unfolding validate_conceptcard_Inr_iff by auto
  from r(1) show "clean (id' c)"
    by (rule require_str_Inr_clean)
  from r(2) show "clean (title c)"
    by (rule require_str_Inr_clean)
  from require_list_of_str_Inr_clean [OF r(3)]
  show "list_all clean (summary c)" and "summary c \<noteq> []" by auto
  from require_list_of_str_Inr_clean [OF r(4)]
  show "list_all clean (core_mechanics c)" and "core_mechanics c \<noteq> []" by auto
  from require_list_of_str_Inr_clean [OF r(5)]
  show "list_all clean (misconceptions c)" and "misconceptions c \<noteq> []" by auto
  from require_list_of_str_Inr_clean [OF r(6)]
  show "list_all clean (non_goals c)" and "non_goals c \<noteq> []" by auto
  from r(7) show "list_all (\<lambda>e. clean (scenario e) \<and> clean (explanation e)) (examples c)"
    by (rule require_examples_Inr_clean)
  from require_safety_Inr [OF r(8)]
  show "filter (\<lambda>m. m \<in> set must_forbid \<and> m \<notin> set (forbidden_intents c)) Intent_by_value = []"
    and "filter (\<lambda>m. m \<in> set (allowed_intents c) \<and> m \<in> set (forbidden_intents c)) Intent_by_value = []"
    by simp_all
  from require_metadata_Inr_clean [OF r(9)]
  show "sources c \<noteq> []" and "list_all clean (sources c)"
    and "clean (last_updated c)" and "re_fullmatch False DATE_RE (last_updated c)"
    by simp_all
  from r(10) show "re_fullmatch False SNAKE_RE (id' c)" .
qed

lemma validated_card_summary:
  assumes "validate_conceptcard raw0 = Inr c"
  shows "list_all (\<lambda>s. \<not> re_search True SECOND_PERSON_RE s) (summary c)"
proof -
  from assms obtain raw where
    su: "require_list_of_str raw (card_id_for_errors raw) ''summary'' 1 = Inr (summary c)"
    and he: "education_only_heuristics (card_id_for_errors raw) raw = Inr ()"
    unfolding validate_conceptcard_Inr_iff by auto
  from su obtain v where v: "map_of raw ''summary'' = Some v" "is_list v"
    "list_all (\<lambda>v. \<not> not_nonempty_str v \<and> \<not> has_placeholder (the_str v)) (the_list v)"
    "summary c = map (\<lambda>v. strip (the_str v)) (the_list v)"
    unfolding require_list_of_str_Inr_iff by blast
  from he v(1,2)
  have "list_all (\<lambda>v. \<not> (is_str v \<and> re_search True SECOND_PERSON_RE (the_str v))) (the_list v)"
    unfolding education_only_heuristics_Inr_iff by simp
  with v(3) have "\<forall>x \<in> set (the_list v). \<not> re_search True SECOND_PERSON_RE (strip (the_str x))"
    using re_search_strip by (auto simp: list_all_iff not_nonempty_str_iff)
  with v(4) show ?thesis
    by (simp add: list_all_iff)
qed

lemma validated_card_non_goals:
  assumes "validate_conceptcard raw0 = Inr c"
  shows "blocks_advice (lower (join '' '' (non_goals c)))"
proof -
  from assms obtain raw where raw: "raw0 = PDict raw"
    unfolding validate_conceptcard_Inr_iff by auto
  note ng = validated_non_goals [OF assms [unfolded raw]]
  from ng(2,3) have "blocks_advice (lower (join '' '' (map the_str (the_list (dict_get raw ''non_goals'')))))"
    by (simp add: non_goals_joined_strs)
  then have "blocks_advice (lower (join '' '' (map strip (map the_str (the_list (dict_get raw ''non_goals''))))))"
    by (rule blocks_advice_strip)
  with ng(4) show ?thesis
    by (simp add: comp_def)
qed

text \<open>
  Claim C7: on every raw record that \<open>validate_conceptcard\<close> accepts, validating the
  serialized form of the returned card succeeds and returns the same card.
\<close>

theorem validate_serialized_card:
  "validate_conceptcard raw = Inr crd \<Longrightarrow>
   validate_conceptcard (serialize_conceptcard crd) = Inr crd"
  by (intro serialized_validates validated_card_fields [of raw] validated_card_summary [of raw]
      validated_card_non_goals [of raw])

theorem validate_serialized_card_witness:
  "validate_conceptcard (PDict (sample_fields '' credit_score'' [''Not personal'']))
     = Inr (sample_card ''credit_score'' [''Not personal''])
   \<and> validate_conceptcard (serialize_conceptcard (sample_card ''credit_score'' [''Not personal'']))
     = Inr (sample_card ''credit_score'' [''Not personal''])"
  using validate_serialized_card [OF sample_valid_credit] sample_valid_credit by simp

end
